theory Spec2Isabelle
  imports Main "HOL-Library.AList" "HOL-Library.Sublist"
begin

section \<open>Python values: exceptions, indexing, formatting\<close>

text \<open>
  Every exception the modelled code can raise is a value.  \<open>NotImplementedError\<close> is the
  capability error of \<open>dpo\<close>; \<open>RuleError\<close> is raised by the \<open>Rule\<close> constructor;
  \<open>KeyError\<close>, \<open>IndexError\<close> and \<open>AttributeError\<close> are what Python raises for a missing
  dictionary key, a list index out of range and an attribute read on \<open>None\<close>.
\<close>

datatype py_error =
    NotImplementedError string
  | RuleError string
  | KeyError
  | IndexError
  | AttributeError

text \<open>Python list indexing: a negative index counts from the end.\<close>

definition py_index :: "'a list \<Rightarrow> int \<Rightarrow> 'a option" where
  "py_index xs i =
     (if 0 \<le> i \<and> i < int (length xs) then Some (xs ! nat i)
      else if i < 0 \<and> - int (length xs) \<le> i then Some (xs ! nat (int (length xs) + i))
      else None)"

text \<open>\<open>str\<close> of an integer, as an f-string interpolates it.\<close>

definition digit_char :: "nat \<Rightarrow> char" where
  "digit_char d = ''0123456789'' ! d"

fun str_nat :: "nat \<Rightarrow> string" where
  "str_nat n = (if n < 10 then [digit_char n] else str_nat (n div 10) @ [digit_char (n mod 10)])"

declare str_nat.simps [simp del]

definition str_int :: "int \<Rightarrow> string" where
  "str_int i = (if i < 0 then CHR ''-'' # str_nat (nat (- i)) else str_nat (nat i))"

section \<open>The hypergraph store\<close>

text \<open>
  Modelled from the spec: the module \<open>graph.py\<close> (classes \<open>Graph\<close>, \<open>VData\<close>, \<open>EData\<close>) is
  not among the sources; the rewriter consumes it through the operations named in
  \<open>rewrite.py\<close>.  The spec describes a directed hypergraph whose hyperedges have an ordered
  source sequence and an ordered target sequence, with a distinguished ordered input
  boundary and output boundary; a vertex is a boundary vertex when it is on the declared
  input or output interface, addressed by position.  Vertex attributes are the type tag,
  arity, position and payload; edge attributes are the payload, position, styling and fan
  flag.  They are only ever copied by the rewriter, so positions are carried as integers.

  The dictionaries of Python keep insertion order, and the rewriter iterates over them, so
  they are association lists with \<open>AList.update\<close> (assignment keeps the position of an
  existing key and appends a new one) and \<open>AList.delete\<close>.  Fresh identities come from the
  counters \<open>vindex\<close> and \<open>eindex\<close>.
\<close>

record VData =
  vd_vtype :: string
  vd_size :: int
  vd_x :: int
  vd_y :: int
  vd_value :: string

record EData =
  ed_s :: "nat list"
  ed_t :: "nat list"
  ed_value :: string
  ed_x :: int
  ed_y :: int
  ed_fg :: string
  ed_bg :: string
  ed_hyper :: bool

record Graph =
  vdata :: "(nat \<times> VData) list"
  edata :: "(nat \<times> EData) list"
  inputs :: "nat list"
  outputs :: "nat list"
  vindex :: nat
  eindex :: nat

definition vertices :: "Graph \<Rightarrow> nat list" where
  "vertices g = map fst (vdata g)"

definition edges :: "Graph \<Rightarrow> nat list" where
  "edges g = map fst (edata g)"

definition vertex_data :: "Graph \<Rightarrow> nat \<Rightarrow> VData option" where
  "vertex_data g v = map_of (vdata g) v"

definition edge_data :: "Graph \<Rightarrow> nat \<Rightarrow> EData option" where
  "edge_data g e = map_of (edata g) e"

text \<open>
  Modelled from the spec: \<open>in_indices\<close> and \<open>out_indices\<close> of a vertex are the sets of
  positions at which it stands on the input and on the output boundary; \<open>dpo\<close> reads their
  sizes.
\<close>

definition in_indices :: "Graph \<Rightarrow> nat \<Rightarrow> nat set" where
  "in_indices g v = set (filter (\<lambda>i. inputs g ! i = v) [0..<length (inputs g)])"

definition out_indices :: "Graph \<Rightarrow> nat \<Rightarrow> nat set" where
  "out_indices g v = set (filter (\<lambda>i. outputs g ! i = v) [0..<length (outputs g)])"

definition is_input :: "Graph \<Rightarrow> nat \<Rightarrow> bool" where
  "is_input g v = (v \<in> set (inputs g))"

definition is_output :: "Graph \<Rightarrow> nat \<Rightarrow> bool" where
  "is_output g v = (v \<in> set (outputs g))"

definition is_boundary :: "Graph \<Rightarrow> nat \<Rightarrow> bool" where
  "is_boundary g v = (is_input g v \<or> is_output g v)"

text \<open>
  Modelled from the spec: the store's edits either succeed or raise a structural error;
  an edit that names a vertex or an edge the graph does not hold raises \<open>KeyError\<close> and
  changes nothing.
\<close>

definition add_vertex :: "VData \<Rightarrow> Graph \<Rightarrow> nat \<times> Graph" where
  "add_vertex vd g =
     (let v = vindex g
      in (v, g\<lparr>vdata := AList.update v vd (vdata g), vindex := v + 1\<rparr>))"

definition add_edge :: "EData \<Rightarrow> Graph \<Rightarrow> py_error + nat \<times> Graph" where
  "add_edge ed g =
     (if set (ed_s ed) \<union> set (ed_t ed) \<subseteq> set (vertices g)
      then (let e = eindex g
            in Inr (e, g\<lparr>edata := AList.update e ed (edata g), eindex := e + 1\<rparr>))
      else Inl KeyError)"

definition remove_edge :: "nat \<Rightarrow> Graph \<Rightarrow> py_error + Graph" where
  "remove_edge e g =
     (if e \<in> set (edges g) then Inr (g\<lparr>edata := AList.delete e (edata g)\<rparr>)
      else Inl KeyError)"

text \<open>
  Removing a vertex also removes its wire-ends: it leaves the source and target sequences
  of every edge and both boundaries, so that every remaining edge end resolves to a live
  vertex.
\<close>

definition drop_vertex :: "nat \<Rightarrow> EData \<Rightarrow> EData" where
  "drop_vertex v ed = ed\<lparr>ed_s := removeAll v (ed_s ed), ed_t := removeAll v (ed_t ed)\<rparr>"

definition remove_vertex :: "nat \<Rightarrow> Graph \<Rightarrow> py_error + Graph" where
  "remove_vertex v g =
     (if v \<in> set (vertices g)
      then Inr (g\<lparr>vdata := AList.delete v (vdata g),
                  edata := map (\<lambda>(e, ed). (e, drop_vertex v ed)) (edata g),
                  inputs := removeAll v (inputs g),
                  outputs := removeAll v (outputs g)\<rparr>)
      else Inl KeyError)"

text \<open>
  Splitting a vertex \<open>v\<close>: every inbound wire-end of \<open>v\<close> (a place on the input boundary,
  then a place in the target sequence of an edge) moves to a fresh vertex of its own, the
  inbound halves; every outbound wire-end (a place on the output boundary, then a place in
  the source sequence of an edge) moves to a fresh vertex of its own, the outbound halves;
  \<open>v\<close> itself is removed.  The result is the pair of lists of new identities.
\<close>

fun replace_fresh :: "nat \<Rightarrow> VData \<Rightarrow> nat list \<Rightarrow> Graph \<Rightarrow> nat list \<times> nat list \<times> Graph" where
  "replace_fresh v vd [] g = ([], [], g)"
| "replace_fresh v vd (u # us) g =
     (if u = v
      then (let (n, g1) = add_vertex vd g;
                (us', fs, g2) = replace_fresh v vd us g1
            in (n # us', n # fs, g2))
      else (let (us', fs, g2) = replace_fresh v vd us g
            in (u # us', fs, g2)))"

fun explode_targets ::
  "nat \<Rightarrow> VData \<Rightarrow> (nat \<times> EData) list \<Rightarrow> Graph \<Rightarrow> (nat \<times> EData) list \<times> nat list \<times> Graph" where
  "explode_targets v vd [] g = ([], [], g)"
| "explode_targets v vd ((e, ed) # es) g =
     (let (t', fs, g1) = replace_fresh v vd (ed_t ed) g;
          (es', fs', g2) = explode_targets v vd es g1
      in ((e, ed\<lparr>ed_t := t'\<rparr>) # es', fs @ fs', g2))"

fun explode_sources ::
  "nat \<Rightarrow> VData \<Rightarrow> (nat \<times> EData) list \<Rightarrow> Graph \<Rightarrow> (nat \<times> EData) list \<times> nat list \<times> Graph" where
  "explode_sources v vd [] g = ([], [], g)"
| "explode_sources v vd ((e, ed) # es) g =
     (let (s', fs, g1) = replace_fresh v vd (ed_s ed) g;
          (es', fs', g2) = explode_sources v vd es g1
      in ((e, ed\<lparr>ed_s := s'\<rparr>) # es', fs @ fs', g2))"

definition explode_vertex :: "nat \<Rightarrow> Graph \<Rightarrow> py_error + nat list \<times> nat list \<times> Graph" where
  "explode_vertex v g =
     (case vertex_data g v of
        None \<Rightarrow> Inl KeyError
      | Some vd \<Rightarrow>
          (let (inp, fi, g1) = replace_fresh v vd (inputs g) g;
               (es1, ft, g2) = explode_targets v vd (edata g1) g1;
               (outp, fo, g3) = replace_fresh v vd (outputs g2) g2;
               (es2, fs, g4) = explode_sources v vd es1 g3
           in Inr (fi @ ft, fo @ fs,
                   g4\<lparr>vdata := AList.delete v (vdata g4), edata := es2,
                      inputs := inp, outputs := outp\<rparr>)))"

text \<open>
  Merging \<open>w\<close> into \<open>v\<close> identifies the two vertices: every wire-end of \<open>w\<close> becomes one of
  \<open>v\<close>, and \<open>w\<close> is removed.
\<close>

definition rename_vertex :: "nat \<Rightarrow> nat \<Rightarrow> nat list \<Rightarrow> nat list" where
  "rename_vertex v w xs = map (\<lambda>u. if u = w then v else u) xs"

definition merge_vertices :: "nat \<Rightarrow> nat \<Rightarrow> Graph \<Rightarrow> py_error + Graph" where
  "merge_vertices v w g =
     (if v \<in> set (vertices g) \<and> w \<in> set (vertices g)
      then remove_vertex w
             (g\<lparr>edata := map (\<lambda>(e, ed). (e, ed\<lparr>ed_s := rename_vertex v w (ed_s ed),
                                                 ed_t := rename_vertex v w (ed_t ed)\<rparr>)) (edata g),
                inputs := rename_vertex v w (inputs g),
                outputs := rename_vertex v w (outputs g)\<rparr>)
      else Inl KeyError)"

section \<open>Objects: graphs and rules on a heap\<close>

text \<open>
  \<open>Graph\<close> and \<open>Rule\<close> objects are shared by reference (a goal's formula, a context entry,
  a match's codomain) and mutated in place, so they live on a heap: a reference is an
  index into the list of objects, and a new object is appended.  A \<open>Rule\<close> holds
  references to its two sides; the code tests both for presence, so a side is optional.

  Modelled from the spec: \<open>rule.py\<close> and \<open>state.py\<close> are not among the sources.  A \<open>Rule\<close>
  owns two hypergraphs \<open>lhs\<close> and \<open>rhs\<close>; the enclosing theory (\<open>State\<close>) holds the proven
  rules by name, their definition sequence positions, the file name and the diagnostics
  log of (document, line, message) triples.
\<close>

record Rule =
  lhs :: "nat option"
  rhs :: "nat option"

record State =
  file_name :: string
  state_errors :: "(string \<times> int \<times> string) list"
  rule_sequence :: "string \<rightharpoonup> int"
  rules :: "string \<rightharpoonup> nat"

record World =
  graphs :: "Graph list"
  rule_objs :: "Rule list"
  state :: State

text \<open>
  Modelled from the spec: \<open>Graph.copy\<close> and \<open>Rule.copy\<close> are deep copies: a new object with
  the same content, and for a rule new copies of both sides.
\<close>

definition Graph_copy :: "nat \<Rightarrow> World \<Rightarrow> nat \<times> World" where
  "Graph_copy g w = (length (graphs w), w\<lparr>graphs := graphs w @ [graphs w ! g]\<rparr>)"

definition Graph_copy_opt :: "nat option \<Rightarrow> World \<Rightarrow> nat option \<times> World" where
  "Graph_copy_opt g w =
     (case g of None \<Rightarrow> (None, w) | Some a \<Rightarrow> (let (a', w') = Graph_copy a w in (Some a', w')))"

definition Rule_new :: "Rule \<Rightarrow> World \<Rightarrow> nat \<times> World" where
  "Rule_new r w = (length (rule_objs w), w\<lparr>rule_objs := rule_objs w @ [r]\<rparr>)"

definition Rule_copy :: "nat \<Rightarrow> World \<Rightarrow> nat \<times> World" where
  "Rule_copy r w =
     (let (l', w1) = Graph_copy_opt (lhs (rule_objs w ! r)) w;
          (r', w2) = Graph_copy_opt (rhs (rule_objs w ! r)) w1
      in Rule_new \<lparr>lhs = l', rhs = r'\<rparr> w2)"

section \<open>Occurrences\<close>

text \<open>
  Modelled from the spec: \<open>matcher.py\<close> is not among the sources.  An occurrence (\<open>Match\<close>)
  carries a vertex-identity mapping, an edge-identity mapping, the pattern (\<open>domain\<close>), the
  target graph (\<open>codomain\<close>) and the image sets.  \<open>Match(domain, codomain)\<close> starts with empty
  mappings.
\<close>

record Match =
  domain :: "nat option"
  codomain :: nat
  vertex_map :: "nat \<rightharpoonup> nat"
  edge_map :: "nat \<rightharpoonup> nat"
  vertex_image :: "nat set"
  edge_image :: "nat set"

definition Match_init :: "nat option \<Rightarrow> nat \<Rightarrow> Match" where
  "Match_init d c =
     \<lparr>domain = d, codomain = c, vertex_map = Map.empty, edge_map = Map.empty,
      vertex_image = {}, edge_image = {}\<rparr>"

section \<open>Double-pushout rewriting (\<open>rewrite.py\<close>)\<close>

text \<open>
  The private copy \<open>ctx\<close> (later called \<open>h\<close>) is the only object \<open>dpo\<close> mutates; the loops
  pass its content along, together with the dictionaries \<open>in_map\<close> and \<open>out_map\<close> and the
  result occurrence, and return the content reached when an exception is raised.
\<close>

definition frobenius_message :: string where
  "frobenius_message = ''Rewriting modulo Frobenius not yet supported.''"

fun pc_edges :: "Match \<Rightarrow> nat list \<Rightarrow> Graph \<Rightarrow> (py_error + unit) \<times> Graph" where
  "pc_edges match [] ctx = (Inr (), ctx)"
| "pc_edges match (e # es) ctx =
     (case edge_map match e of
        None \<Rightarrow> (Inl KeyError, ctx)
      | Some e1 \<Rightarrow>
          (case remove_edge e1 ctx of
             Inl x \<Rightarrow> (Inl x, ctx)
           | Inr ctx' \<Rightarrow> pc_edges match es ctx'))"

fun pc_vertices ::
  "Graph \<Rightarrow> Match \<Rightarrow> nat list \<Rightarrow> (nat \<rightharpoonup> nat) \<times> (nat \<rightharpoonup> nat) \<Rightarrow> Graph
     \<Rightarrow> (py_error + (nat \<rightharpoonup> nat) \<times> (nat \<rightharpoonup> nat)) \<times> Graph" where
  "pc_vertices L match [] io ctx = (Inr io, ctx)"
| "pc_vertices L match (v # vs) (in_map, out_map) ctx =
     (case vertex_map match v of
        None \<Rightarrow> (Inl KeyError, ctx)
      | Some v1 \<Rightarrow>
          if \<not> is_boundary L v then
            (case remove_vertex v1 ctx of
               Inl x \<Rightarrow> (Inl x, ctx)
             | Inr ctx' \<Rightarrow> pc_vertices L match vs (in_map, out_map) ctx')
          else
            (let in_count = card (in_indices L v);
                 out_count = card (out_indices L v)
             in if in_count = 1 \<and> out_count = 1 then
                  (case explode_vertex v1 ctx of
                     Inl x \<Rightarrow> (Inl x, ctx)
                   | Inr (input_vertices, output_vertices, ctx') \<Rightarrow>
                       if length input_vertices = 1 \<and> length output_vertices = 1
                       then pc_vertices L match vs
                              (in_map(v \<mapsto> input_vertices ! 0), out_map(v \<mapsto> output_vertices ! 0))
                              ctx'
                       else (Inl (NotImplementedError frobenius_message), ctx'))
                else if in_count > 1 \<or> out_count > 1 then
                  (Inl (NotImplementedError frobenius_message), ctx)
                else pc_vertices L match vs (in_map, out_map) ctx))"

definition pushout_complement ::
  "Graph \<Rightarrow> Match \<Rightarrow> Graph \<Rightarrow> (py_error + (nat \<rightharpoonup> nat) \<times> (nat \<rightharpoonup> nat)) \<times> Graph" where
  "pushout_complement L match ctx =
     (case pc_edges match (edges L) ctx of
        (Inl x, ctx1) \<Rightarrow> (Inl x, ctx1)
      | (Inr u, ctx1) \<Rightarrow> pc_vertices L match (vertices L) (Map.empty, Map.empty) ctx1)"

text \<open>First the inputs are mapped, using the matching of the lhs.\<close>

fun dpo_map_inputs ::
  "Match \<Rightarrow> (nat \<rightharpoonup> nat) \<Rightarrow> (nat \<times> nat) list \<Rightarrow> Match \<Rightarrow> py_error + Match" where
  "dpo_map_inputs match in_map [] result = Inr result"
| "dpo_map_inputs match in_map ((vl, vr) # ps) result =
     (case (case in_map vl of Some u \<Rightarrow> Some u | None \<Rightarrow> vertex_map match vl) of
        None \<Rightarrow> Inl KeyError
      | Some u \<Rightarrow>
          dpo_map_inputs match in_map ps
            (result\<lparr>vertex_map := (vertex_map result)(vr \<mapsto> u)\<rparr>))"

text \<open>
  Next the outputs.  If the same vertex is an input and an output in the rhs, the two
  images are merged in \<open>h\<close>.
\<close>

fun dpo_map_outputs ::
  "Match \<Rightarrow> (nat \<rightharpoonup> nat) \<Rightarrow> (nat \<times> nat) list \<Rightarrow> Match \<Rightarrow> Graph
     \<Rightarrow> (py_error + Match) \<times> Graph" where
  "dpo_map_outputs match out_map [] result h = (Inr result, h)"
| "dpo_map_outputs match out_map ((vl, vr) # ps) result h =
     (case (case out_map vl of Some u \<Rightarrow> Some u | None \<Rightarrow> vertex_map match vl) of
        None \<Rightarrow> (Inl KeyError, h)
      | Some vr1 \<Rightarrow>
          (case vertex_map result vr of
             Some u \<Rightarrow>
               (case merge_vertices u vr1 h of
                  Inl x \<Rightarrow> (Inl x, h)
                | Inr h' \<Rightarrow> dpo_map_outputs match out_map ps result h')
           | None \<Rightarrow>
               dpo_map_outputs match out_map ps
                 (result\<lparr>vertex_map := (vertex_map result)(vr \<mapsto> vr1)\<rparr>) h))"

text \<open>Then the interior is mapped to new, fresh vertices.\<close>

fun dpo_map_interior ::
  "Graph \<Rightarrow> nat list \<Rightarrow> Match \<Rightarrow> Graph \<Rightarrow> (py_error + Match) \<times> Graph" where
  "dpo_map_interior R [] result h = (Inr result, h)"
| "dpo_map_interior R (v # vs) result h =
     (if \<not> is_boundary R v then
        (case vertex_data R v of
           None \<Rightarrow> (Inl KeyError, h)
         | Some vd \<Rightarrow>
             (let (v1, h') =
                    add_vertex \<lparr>vd_vtype = vd_vtype vd, vd_size = vd_size vd, vd_x = vd_x vd,
                                vd_y = vd_y vd, vd_value = vd_value vd\<rparr> h
              in dpo_map_interior R vs
                   (result\<lparr>vertex_map := (vertex_map result)(v \<mapsto> v1),
                           vertex_image := insert v1 (vertex_image result)\<rparr>) h'))
      else dpo_map_interior R vs result h)"

text \<open>Now the edges of the rhs are added to \<open>h\<close> and connected through the vertex map.\<close>

fun dpo_add_edges ::
  "Graph \<Rightarrow> nat list \<Rightarrow> Match \<Rightarrow> Graph \<Rightarrow> (py_error + Match) \<times> Graph" where
  "dpo_add_edges R [] result h = (Inr result, h)"
| "dpo_add_edges R (e # es) result h =
     (case edge_data R e of
        None \<Rightarrow> (Inl KeyError, h)
      | Some ed \<Rightarrow>
          (case those (map (vertex_map result) (ed_s ed)) of
             None \<Rightarrow> (Inl KeyError, h)
           | Some s' \<Rightarrow>
               (case those (map (vertex_map result) (ed_t ed)) of
                  None \<Rightarrow> (Inl KeyError, h)
                | Some t' \<Rightarrow>
                    (case add_edge \<lparr>ed_s = s', ed_t = t', ed_value = ed_value ed,
                                    ed_x = ed_x ed, ed_y = ed_y ed, ed_fg = ed_fg ed,
                                    ed_bg = ed_bg ed, ed_hyper = ed_hyper ed\<rparr> h of
                       Inl x \<Rightarrow> (Inl x, h)
                     | Inr (e1, h') \<Rightarrow>
                         dpo_add_edges R es
                           (result\<lparr>edge_map := (edge_map result)(e \<mapsto> e1),
                                   edge_image := insert e1 (edge_image result)\<rparr>) h'))))"

text \<open>
  The part of \<open>dpo\<close> after the pushout complement: it embeds the rhs into \<open>h\<close>.  \<open>hr\<close> is
  the reference of \<open>h\<close>, which the result occurrence keeps as its codomain.
\<close>

definition dpo_embed ::
  "Graph \<Rightarrow> Graph \<Rightarrow> nat option \<Rightarrow> nat \<Rightarrow> Match \<Rightarrow> (nat \<rightharpoonup> nat) \<Rightarrow> (nat \<rightharpoonup> nat) \<Rightarrow> Graph
     \<Rightarrow> (py_error + Match) \<times> Graph" where
  "dpo_embed L R rr hr match in_map out_map h =
     (case dpo_map_inputs match in_map (zip (inputs L) (inputs R)) (Match_init rr hr) of
        Inl x \<Rightarrow> (Inl x, h)
      | Inr result1 \<Rightarrow>
          (case dpo_map_outputs match out_map (zip (outputs L) (outputs R)) result1 h of
             (Inl x, h1) \<Rightarrow> (Inl x, h1)
           | (Inr result2, h1) \<Rightarrow>
               (case dpo_map_interior R (vertices R) result2 h1 of
                  (Inl x, h2) \<Rightarrow> (Inl x, h2)
                | (Inr result3, h2) \<Rightarrow> dpo_add_edges R (edges R) result3 h2)))"

text \<open>
  \<open>dpo\<close> on the heap: \<open>rule\<close> is the reference of a \<open>Rule\<close> object.  The copy of the match's
  codomain is a new object; its final content is stored under the new reference, and no
  other object is written.  A side of the rule that is \<open>None\<close> raises \<open>AttributeError\<close>
  at its first use.
\<close>

definition dpo_run ::
  "Rule \<Rightarrow> nat \<Rightarrow> Match \<Rightarrow> World \<Rightarrow> (py_error + Match list) \<times> Graph" where
  "dpo_run ru hr match w =
     (let ctx = graphs w ! hr in
      case lhs ru of
        None \<Rightarrow> (Inl AttributeError, ctx)
      | Some l \<Rightarrow>
          (case pushout_complement (graphs w ! l) match ctx of
             (Inl x, h) \<Rightarrow> (Inl x, h)
           | (Inr (in_map, out_map), h) \<Rightarrow>
               (case rhs ru of
                  None \<Rightarrow> (Inl AttributeError, h)
                | Some r \<Rightarrow>
                    (case dpo_embed (graphs w ! l) (graphs w ! r) (rhs ru) hr match
                            in_map out_map h of
                       (Inl x, h') \<Rightarrow> (Inl x, h')
                     | (Inr result, h') \<Rightarrow> (Inr [result], h')))))"

definition dpo :: "nat \<Rightarrow> Match \<Rightarrow> World \<Rightarrow> (py_error + Match list) \<times> World" where
  "dpo rule match w =
     (let (hr, w1) = Graph_copy (codomain match) w;
          (res, h) = dpo_run (rule_objs w1 ! rule) hr match w1
      in (res, w1\<lparr>graphs := (graphs w1)[hr := h]\<rparr>))"

section \<open>Goals and proof states (\<open>proofstate.py\<close>)\<close>

text \<open>
  A \<open>Goal\<close> holds the reference of its formula and its assumptions by name; a \<open>ProofState\<close>
  holds the goal stack (index 0 is the topmost goal), the local context, the set of
  messages it has reported, its sequence position and its line.  The dictionaries that
  the code copies entry by entry are association lists.  Every proof state of a checking
  pass points to the one \<open>State\<close> of the enclosing theory, which is the \<open>state\<close> of the
  \<open>World\<close>.
\<close>

record Goal =
  formula :: nat
  assumptions :: "(string \<times> nat) list"

record ProofState =
  sequence :: int
  goals :: "Goal list"
  ps_context :: "(string \<times> nat) list"
  errors :: "string set"
  line :: int

fun copy_rules :: "(string \<times> nat) list \<Rightarrow> World \<Rightarrow> (string \<times> nat) list \<times> World" where
  "copy_rules [] w = ([], w)"
| "copy_rules ((asm, r) # rs) w =
     (let (r', w1) = Rule_copy r w;
          (rs', w2) = copy_rules rs w1
      in ((asm, r') # rs', w2))"

definition Goal_copy :: "Goal \<Rightarrow> World \<Rightarrow> Goal \<times> World" where
  "Goal_copy g w =
     (let (assumptions', w1) = copy_rules (assumptions g) w;
          (f, w2) = Rule_copy (formula g) w1
      in (\<lparr>formula = f, assumptions = assumptions'\<rparr>, w2))"

text \<open>
  \<open>error\<close> appends a diagnostic to the theory's log unless this proof state has already
  reported the same message.
\<close>

definition error :: "string \<Rightarrow> ProofState \<Rightarrow> World \<Rightarrow> ProofState \<times> World" where
  "error message ps w =
     (if message \<notin> errors ps
      then (ps\<lparr>errors := insert message (errors ps)\<rparr>,
            w\<lparr>state := (state w)\<lparr>state_errors :=
                 state_errors (state w) @ [(file_name (state w), line ps, message)]\<rparr>\<rparr>)
      else (ps, w))"

definition num_goals :: "ProofState \<Rightarrow> nat" where
  "num_goals ps = length (goals ps)"

definition before_defined_message :: "string \<Rightarrow> int \<Rightarrow> int \<Rightarrow> string" where
  "before_defined_message rule_name seq sq =
     ''Attempting to use rule '' @ rule_name @ '' before it is defined/proven (''
       @ str_int seq @ '' >= '' @ str_int sq @ '').''"

definition not_defined_message :: "string \<Rightarrow> string" where
  "not_defined_message rule_name = ''Rule '' @ rule_name @ '' not defined.''"

text \<open>
  \<open>lookup_rule\<close>: the local context first, then the assumptions of goal \<open>goal_i\<close>, then the
  global rules.  \<open>local\<close> is \<open>None\<close>, \<open>Some True\<close> or \<open>Some False\<close>.  A \<open>Rule\<close> object is
  truthy, so \<open>not rule\<close> holds exactly when \<open>rule\<close> is \<open>None\<close>.  The result is a copy.
\<close>

definition lookup_local ::
  "string \<Rightarrow> int \<Rightarrow> ProofState \<Rightarrow> py_error + nat option" where
  "lookup_local rule_name goal_i ps =
     (if rule_name \<in> fst ` set (ps_context ps) then Inr (map_of (ps_context ps) rule_name)
      else (case py_index (goals ps) goal_i of
              None \<Rightarrow> Inl IndexError
            | Some g \<Rightarrow>
                if rule_name \<in> fst ` set (assumptions g)
                then Inr (map_of (assumptions g) rule_name)
                else Inr None))"

definition lookup_finish ::
  "string \<Rightarrow> nat option \<Rightarrow> ProofState \<Rightarrow> World \<Rightarrow> (py_error + nat option) \<times> ProofState \<times> World" where
  "lookup_finish rule_name rule ps w =
     (case rule of
        None \<Rightarrow> (let (ps', w') = error (not_defined_message rule_name) ps w
                 in (Inr None, ps', w'))
      | Some r \<Rightarrow> (let (r', w') = Rule_copy r w in (Inr (Some r'), ps, w')))"

definition lookup_rule ::
  "string \<Rightarrow> int \<Rightarrow> bool option \<Rightarrow> ProofState \<Rightarrow> World
     \<Rightarrow> (py_error + nat option) \<times> ProofState \<times> World" where
  "lookup_rule rule_expr goal_i local ps w =
     (let rule_name = rule_expr;
          loc = (local = None \<or> local = Some True);
          glo = (local = None \<or> local = Some False)
      in case (if loc then lookup_local rule_name goal_i ps else Inr None) of
           Inl x \<Rightarrow> (Inl x, ps, w)
         | Inr rule \<Rightarrow>
             if glo \<and> rule = None \<and> rule_name \<in> dom (rule_sequence (state w)) then
               (let seq = the (rule_sequence (state w) rule_name)
                in if seq \<ge> sequence ps then
                     (let (ps', w') =
                            error (before_defined_message rule_name seq (sequence ps)) ps w
                      in (Inr None, ps', w'))
                   else
                     (case rules (state w) rule_name of
                        None \<Rightarrow> (Inl KeyError, ps, w)
                      | Some r \<Rightarrow> lookup_finish rule_name (Some r) ps w))
             else lookup_finish rule_name rule ps w)"

definition add_rule_to_context ::
  "string \<Rightarrow> ProofState \<Rightarrow> World \<Rightarrow> (py_error + unit) \<times> ProofState \<times> World" where
  "add_rule_to_context rule_name ps w =
     (case lookup_rule rule_name 0 (Some False) ps w of
        (Inl x, ps', w') \<Rightarrow> (Inl x, ps', w')
      | (Inr None, ps', w') \<Rightarrow> (Inr (), ps', w')
      | (Inr (Some rule), ps', w') \<Rightarrow>
          (Inr (), ps'\<lparr>ps_context := AList.update rule_name rule (ps_context ps')\<rparr>, w'))"

definition target_rule :: "string \<Rightarrow> ProofState \<Rightarrow> nat option" where
  "target_rule target ps =
     (if target = [] \<and> length (goals ps) > 0 then Some (formula (goals ps ! 0))
      else if target \<in> fst ` set (ps_context ps) then map_of (ps_context ps) target
      else None)"

text \<open>
  \<open>lhs()\<close> and \<open>rhs()\<close> of a proof state: a copy of the side of the topmost goal's formula.
  A \<open>Graph\<close> object is truthy, so \<open>if g\<close> tests for \<open>None\<close>.
\<close>

definition ProofState_lhs :: "ProofState \<Rightarrow> World \<Rightarrow> (py_error + nat option) \<times> World" where
  "ProofState_lhs ps w =
     (case target_rule [] ps of
        None \<Rightarrow> (Inl AttributeError, w)
      | Some tr \<Rightarrow> (let (g', w') = Graph_copy_opt (lhs (rule_objs w ! tr)) w in (Inr g', w')))"

definition ProofState_rhs :: "ProofState \<Rightarrow> World \<Rightarrow> (py_error + nat option) \<times> World" where
  "ProofState_rhs ps w =
     (case target_rule [] ps of
        None \<Rightarrow> (Inl AttributeError, w)
      | Some tr \<Rightarrow> (let (g', w') = Graph_copy_opt (rhs (rule_objs w ! tr)) w in (Inr g', w')))"

text \<open>
  Modelled from the spec: the \<open>Rule\<close> constructor is not among the sources.  A rule pairs
  two hypergraphs with equal boundary-port counts; a boundary-arity mismatch raises
  \<open>RuleError\<close>.  The text of that error is not known and is the parameter \<open>msg\<close>.  A side
  that is \<open>None\<close> has no boundary to read.
\<close>

definition Rule_init ::
  "string \<Rightarrow> nat option \<Rightarrow> nat option \<Rightarrow> World \<Rightarrow> (py_error + nat) \<times> World" where
  "Rule_init msg l r w =
     (case (l, r) of
        (Some a, Some b) \<Rightarrow>
          if length (inputs (graphs w ! a)) = length (inputs (graphs w ! b))
             \<and> length (outputs (graphs w ! a)) = length (outputs (graphs w ! b))
          then (let (n, w') = Rule_new \<lparr>lhs = l, rhs = r\<rparr> w in (Inr n, w'))
          else (Inl (RuleError msg), w)
      | _ \<Rightarrow> (Inl AttributeError, w))"

definition set_lhs :: "nat \<Rightarrow> nat option \<Rightarrow> World \<Rightarrow> World" where
  "set_lhs r g w = w\<lparr>rule_objs := (rule_objs w)[r := (rule_objs w ! r)\<lparr>lhs := g\<rparr>]\<rparr>"

definition set_rhs :: "nat \<Rightarrow> nat option \<Rightarrow> World \<Rightarrow> World" where
  "set_rhs r g w = w\<lparr>rule_objs := (rule_objs w)[r := (rule_objs w ! r)\<lparr>rhs := g\<rparr>]\<rparr>"

definition replace_lhs ::
  "string \<Rightarrow> nat \<Rightarrow> ProofState \<Rightarrow> World \<Rightarrow> (py_error + unit) \<times> ProofState \<times> World" where
  "replace_lhs msg new_lhs ps w =
     (case ProofState_lhs ps w of
        (Inl x, w1) \<Rightarrow> (Inl x, ps, w1)
      | (Inr old, w1) \<Rightarrow>
          (case Rule_init msg old (Some new_lhs) w1 of
             (Inl (RuleError e), w2) \<Rightarrow> (let (ps', w3) = error e ps w2 in (Inr (), ps', w3))
           | (Inl x, w2) \<Rightarrow> (Inl x, ps, w2)
           | (Inr r, w2) \<Rightarrow>
               (case target_rule [] ps of
                  None \<Rightarrow> (Inl AttributeError, ps, w2)
                | Some tr \<Rightarrow>
                    (let w3 = set_lhs tr (Some new_lhs) w2
                     in case py_index (goals ps) 0 of
                          None \<Rightarrow> (Inl IndexError, ps, w3)
                        | Some g0 \<Rightarrow>
                            (let (g, w4) = Goal_copy g0 w3
                             in (Inr (), ps\<lparr>goals := g\<lparr>formula := r\<rparr> # goals ps\<rparr>, w4))))))"

definition replace_rhs ::
  "string \<Rightarrow> nat \<Rightarrow> ProofState \<Rightarrow> World \<Rightarrow> (py_error + unit) \<times> ProofState \<times> World" where
  "replace_rhs msg new_rhs ps w =
     (case ProofState_rhs ps w of
        (Inl x, w1) \<Rightarrow> (Inl x, ps, w1)
      | (Inr old, w1) \<Rightarrow>
          (case Rule_init msg old (Some new_rhs) w1 of
             (Inl (RuleError e), w2) \<Rightarrow> (let (ps', w3) = error e ps w2 in (Inr (), ps', w3))
           | (Inl x, w2) \<Rightarrow> (Inl x, ps, w2)
           | (Inr r, w2) \<Rightarrow>
               (case target_rule [] ps of
                  None \<Rightarrow> (Inl AttributeError, ps, w2)
                | Some tr \<Rightarrow>
                    (let w3 = set_rhs tr (Some new_rhs) w2
                     in case py_index (goals ps) 0 of
                          None \<Rightarrow> (Inl IndexError, ps, w3)
                        | Some g0 \<Rightarrow>
                            (let (g, w4) = Goal_copy g0 w3
                             in (Inr (), ps\<lparr>goals := g\<lparr>formula := r\<rparr> # goals ps\<rparr>, w4))))))"

subsection \<open>The rewrite generators\<close>

text \<open>
  \<open>rewrite_lhs\<close> and \<open>rewrite_rhs\<close> are generator functions: calling one runs nothing, and
  each advance runs the body up to the next \<open>yield\<close>.  The two bodies differ only in the
  side of the target rule they read and write.  A generator is a cursor: \<open>Gen_start\<close>
  before the first advance, \<open>Gen_loop\<close> when suspended at the \<open>yield\<close> (holding the rule
  copy, the target name, the current pattern occurrence, what is left of \<open>dpo\<close>'s results
  and what is left of the occurrences), \<open>Gen_done\<close> once it has returned or raised.  An
  advance gives \<open>Inr (Some pair)\<close> at a \<open>yield\<close> and \<open>Inr None\<close> when the generator is
  exhausted.

  Modelled from the spec: the Occurrence Finder (\<open>Matches\<close>, \<open>find_iso\<close>) is not among the
  sources; it is a parameter.  \<open>Matches w pattern target\<close> are the occurrences it reports
  for the two graph references in the heap \<open>w\<close>, in its order of enumeration, and
  \<open>find_iso w a b\<close> is its isomorphism test.  The \<open>for\<close> statement evaluates
  \<open>Matches(...)\<close> once, when the loop is entered.
\<close>

datatype side = LHS | RHS

definition get_side :: "side \<Rightarrow> Rule \<Rightarrow> nat option" where
  "get_side sd r = (case sd of LHS \<Rightarrow> lhs r | RHS \<Rightarrow> rhs r)"

definition set_side :: "side \<Rightarrow> nat \<Rightarrow> nat option \<Rightarrow> World \<Rightarrow> World" where
  "set_side sd r g w = (case sd of LHS \<Rightarrow> set_lhs r g w | RHS \<Rightarrow> set_rhs r g w)"

datatype Gen =
    Gen_start string string
  | Gen_loop nat string Match "Match list" "Match list"
  | Gen_done

type_synonym finder = "World \<Rightarrow> nat option \<Rightarrow> nat option \<Rightarrow> Match list"

type_synonym advance = "(py_error + (Match \<times> Match) option) \<times> Gen \<times> World"

text \<open>
  The statement \<open>self.target_rule(target).lhs = m_h.codomain.copy()\<close>: the copy is made
  first, then the target rule is looked up and its side is rebound to the copy.
\<close>

definition rewrite_commit ::
  "side \<Rightarrow> string \<Rightarrow> Match \<Rightarrow> ProofState \<Rightarrow> World \<Rightarrow> (py_error + unit) \<times> World" where
  "rewrite_commit sd target m_h ps w =
     (let (c, w1) = Graph_copy (codomain m_h) w
      in case target_rule target ps of
           None \<Rightarrow> (Inl AttributeError, w1)
         | Some tr \<Rightarrow> (Inr (), set_side sd tr (Some c) w1))"

fun rewrite_inner ::
  "side \<Rightarrow> nat \<Rightarrow> string \<Rightarrow> Match \<Rightarrow> Match list \<Rightarrow> Match list \<Rightarrow> ProofState \<Rightarrow> World
     \<Rightarrow> advance option" where
  "rewrite_inner sd rule target m_g [] ms ps w = None"
| "rewrite_inner sd rule target m_g (m_h # hs) ms ps w =
     Some (case rewrite_commit sd target m_h ps w of
             (Inl x, w1) \<Rightarrow> (Inl x, Gen_done, w1)
           | (Inr u, w1) \<Rightarrow> (Inr (Some (m_g, m_h)), Gen_loop rule target m_g hs ms, w1))"

fun rewrite_outer ::
  "side \<Rightarrow> nat \<Rightarrow> string \<Rightarrow> Match list \<Rightarrow> ProofState \<Rightarrow> World \<Rightarrow> advance" where
  "rewrite_outer sd rule target [] ps w = (Inr None, Gen_done, w)"
| "rewrite_outer sd rule target (m_g # ms) ps w =
     (case dpo rule m_g w of
        (Inl x, w1) \<Rightarrow> (Inl x, Gen_done, w1)
      | (Inr hs, w1) \<Rightarrow>
          (case rewrite_inner sd rule target m_g hs ms ps w1 of
             Some r \<Rightarrow> r
           | None \<Rightarrow> rewrite_outer sd rule target ms ps w1))"

definition rewrite_start ::
  "side \<Rightarrow> finder \<Rightarrow> string \<Rightarrow> string \<Rightarrow> ProofState \<Rightarrow> World
     \<Rightarrow> (py_error + (Match \<times> Match) option) \<times> Gen \<times> ProofState \<times> World" where
  "rewrite_start sd Matches rule_expr target ps w =
     (case lookup_rule rule_expr 0 None ps w of
        (Inl x, ps1, w1) \<Rightarrow> (Inl x, Gen_done, ps1, w1)
      | (Inr None, ps1, w1) \<Rightarrow> (Inr None, Gen_done, ps1, w1)
      | (Inr (Some rule), ps1, w1) \<Rightarrow>
          (case target_rule target ps1 of
             None \<Rightarrow> (Inl AttributeError, Gen_done, ps1, w1)
           | Some tr \<Rightarrow>
               (case get_side sd (rule_objs w1 ! tr) of
                  None \<Rightarrow> (Inr None, Gen_done, ps1, w1)
                | Some target_graph \<Rightarrow>
                    (let (res, gen, w2) =
                           rewrite_outer sd rule target
                             (Matches w1 (lhs (rule_objs w1 ! rule)) (Some target_graph)) ps1 w1
                     in (res, gen, ps1, w2)))))"

definition rewrite_next ::
  "side \<Rightarrow> finder \<Rightarrow> Gen \<Rightarrow> ProofState \<Rightarrow> World
     \<Rightarrow> (py_error + (Match \<times> Match) option) \<times> Gen \<times> ProofState \<times> World" where
  "rewrite_next sd Matches gen ps w =
     (case gen of
        Gen_start rule_expr target \<Rightarrow> rewrite_start sd Matches rule_expr target ps w
      | Gen_loop rule target m_g hs ms \<Rightarrow>
          (let (res, gen', w') =
                 (case rewrite_inner sd rule target m_g hs ms ps w of
                    Some r \<Rightarrow> r
                  | None \<Rightarrow> rewrite_outer sd rule target ms ps w)
           in (res, gen', ps, w'))
      | Gen_done \<Rightarrow> (Inr None, Gen_done, ps, w))"

definition rewrite_lhs :: "string \<Rightarrow> string \<Rightarrow> Gen" where
  "rewrite_lhs rule_expr target = Gen_start rule_expr target"

definition rewrite_rhs :: "string \<Rightarrow> string \<Rightarrow> Gen" where
  "rewrite_rhs rule_expr target = Gen_start rule_expr target"

definition rewrite_lhs_next ::
  "finder \<Rightarrow> Gen \<Rightarrow> ProofState \<Rightarrow> World
     \<Rightarrow> (py_error + (Match \<times> Match) option) \<times> Gen \<times> ProofState \<times> World" where
  "rewrite_lhs_next Matches gen ps w = rewrite_next LHS Matches gen ps w"

definition rewrite_rhs_next ::
  "finder \<Rightarrow> Gen \<Rightarrow> ProofState \<Rightarrow> World
     \<Rightarrow> (py_error + (Match \<times> Match) option) \<times> Gen \<times> ProofState \<times> World" where
  "rewrite_rhs_next Matches gen ps w = rewrite_next RHS Matches gen ps w"

subsection \<open>Validating and closing goals\<close>

text \<open>
  \<open>find_iso(...) != None\<close> holds exactly when an isomorphism was found.  The isomorphism
  test reads the two graphs and changes nothing.
\<close>

type_synonym iso_finder = "World \<Rightarrow> nat option \<Rightarrow> nat option \<Rightarrow> Match option"

definition validate_goal ::
  "iso_finder \<Rightarrow> int \<Rightarrow> ProofState \<Rightarrow> World \<Rightarrow> Match option \<times> ProofState \<times> World" where
  "validate_goal find_iso i ps w =
     (if i \<ge> 0 \<and> i < int (length (goals ps)) then
        (let g = goals ps ! nat i
         in (find_iso w (lhs (rule_objs w ! formula g)) (rhs (rule_objs w ! formula g)), ps, w))
      else (None, ps, w))"

definition try_close_goal ::
  "iso_finder \<Rightarrow> int \<Rightarrow> ProofState \<Rightarrow> World \<Rightarrow> bool \<times> ProofState \<times> World" where
  "try_close_goal find_iso i ps w =
     (if i \<ge> 0 \<and> i < int (length (goals ps)) then
        (let g = goals ps ! nat i
         in if find_iso w (lhs (rule_objs w ! formula g)) (rhs (rule_objs w ! formula g)) \<noteq> None
            then (True, ps\<lparr>goals := take (nat i) (goals ps) @ drop (Suc (nat i)) (goals ps)\<rparr>, w)
            else (False, ps, w))
      else (False, ps, w))"

section \<open>What a reference stands for\<close>

text \<open>
  \<open>rule_value\<close> is the content of a rule: the graphs its two sides refer to.  \<open>rule_refs\<close>
  are the graph objects a rule refers to, and \<open>rule_ok\<close> says that the rule and those
  graphs are objects of the heap, which holds of every reference a Python program holds.
  \<open>extends w w'\<close> says that \<open>w'\<close> has every object of \<open>w\<close>, unchanged, possibly followed by
  new objects, and the same theory state.
\<close>

definition rule_value :: "World \<Rightarrow> nat \<Rightarrow> Graph option \<times> Graph option" where
  "rule_value w r =
     (map_option (\<lambda>a. graphs w ! a) (lhs (rule_objs w ! r)),
      map_option (\<lambda>a. graphs w ! a) (rhs (rule_objs w ! r)))"

definition rule_refs :: "World \<Rightarrow> nat \<Rightarrow> nat set" where
  "rule_refs w r = set_option (lhs (rule_objs w ! r)) \<union> set_option (rhs (rule_objs w ! r))"

definition rule_ok :: "World \<Rightarrow> nat \<Rightarrow> bool" where
  "rule_ok w r = (r < length (rule_objs w) \<and> (\<forall>a \<in> rule_refs w r. a < length (graphs w)))"

definition extends :: "World \<Rightarrow> World \<Rightarrow> bool" where
  "extends w w' =
     (prefix (graphs w) (graphs w') \<and> prefix (rule_objs w) (rule_objs w') \<and> state w' = state w)"

text \<open>
  \<open>independent_copy w r w' r'\<close>: in \<open>w'\<close>, which extends \<open>w\<close>, the rule \<open>r'\<close> is a new object
  whose sides are new graph objects, distinct from each other, with the content \<open>r\<close> has
  in \<open>w\<close>.
\<close>

definition independent_copy :: "World \<Rightarrow> nat \<Rightarrow> World \<Rightarrow> nat \<Rightarrow> bool" where
  "independent_copy w r w' r' =
     (extends w w' \<and> length (rule_objs w) \<le> r' \<and> r' < length (rule_objs w')
      \<and> (\<forall>a \<in> rule_refs w' r'. length (graphs w) \<le> a \<and> a < length (graphs w'))
      \<and> (lhs (rule_objs w' ! r') = None \<or> lhs (rule_objs w' ! r') \<noteq> rhs (rule_objs w' ! r'))
      \<and> rule_value w' r' = rule_value w r)"

text \<open>
  \<open>mutation_of w r w'\<close>: \<open>w'\<close> comes from \<open>w\<close> by mutating the rule object \<open>r\<close> and the graph
  objects it refers to in \<open>w\<close>, in any way; no other object is written.
\<close>

definition mutation_of :: "World \<Rightarrow> nat \<Rightarrow> World \<Rightarrow> bool" where
  "mutation_of w r w' =
     (length (graphs w') = length (graphs w) \<and> length (rule_objs w') = length (rule_objs w)
      \<and> (\<forall>a < length (graphs w). a \<notin> rule_refs w r \<longrightarrow> graphs w' ! a = graphs w ! a)
      \<and> (\<forall>q < length (rule_objs w). q \<noteq> r \<longrightarrow> rule_objs w' ! q = rule_objs w ! q))"

text \<open>
  The rules a proof state can find by name: its context entries, the assumptions of its
  goals, and the rules of the theory.
\<close>

definition stored_rules :: "ProofState \<Rightarrow> World \<Rightarrow> nat set" where
  "stored_rules ps w =
     snd ` set (ps_context ps) \<union> (\<Union>g \<in> set (goals ps). snd ` set (assumptions g))
       \<union> ran (rules (state w))"

text \<open>
  The stored rule a name resolves to: the entry of the local context or of the assumptions
  of the goal, when the local scope is searched and has the name; the rule of the theory
  otherwise.
\<close>

definition resolves_to ::
  "string \<Rightarrow> int \<Rightarrow> bool option \<Rightarrow> ProofState \<Rightarrow> World \<Rightarrow> nat \<Rightarrow> bool" where
  "resolves_to rule_name goal_i local ps w r0 =
     (if (local = None \<or> local = Some True) \<and> lookup_local rule_name goal_i ps \<noteq> Inr None
      then lookup_local rule_name goal_i ps = Inr (Some r0)
      else rules (state w) rule_name = Some r0)"

text \<open>Two graphs are boundary-compatible when their boundary-port counts are equal.\<close>

definition same_boundary :: "Graph \<Rightarrow> Graph \<Rightarrow> bool" where
  "same_boundary a b =
     (length (inputs a) = length (inputs b) \<and> length (outputs a) = length (outputs b))"

text \<open>
  The target name a generator was created with, and the results of \<open>dpo\<close> for its current
  occurrence that it has not yielded yet.  \<open>committed sd tr m_h w w'\<close>: in \<open>w'\<close> the
  side \<open>sd\<close> of the rule \<open>tr\<close> is a graph object that did not exist in \<open>w\<close> and has the
  content of the codomain of \<open>m_h\<close>, and every graph object of \<open>w\<close> has its content
  unchanged.
\<close>

definition gen_target :: "Gen \<Rightarrow> string" where
  "gen_target gen =
     (case gen of Gen_start rule_expr target \<Rightarrow> target
      | Gen_loop rule target m_g hs ms \<Rightarrow> target
      | Gen_done \<Rightarrow> [])"

definition gen_pending :: "Gen \<Rightarrow> Match list" where
  "gen_pending gen =
     (case gen of Gen_start rule_expr target \<Rightarrow> []
      | Gen_loop rule target m_g hs ms \<Rightarrow> hs
      | Gen_done \<Rightarrow> [])"

definition committed :: "side \<Rightarrow> nat \<Rightarrow> Match \<Rightarrow> World \<Rightarrow> World \<Rightarrow> bool" where
  "committed sd tr m_h w w' =
     ((\<exists>c. get_side sd (rule_objs w' ! tr) = Some c \<and> length (graphs w) \<le> c
           \<and> c < length (graphs w') \<and> graphs w' ! c = graphs w' ! codomain m_h)
      \<and> (\<forall>a < length (graphs w). graphs w' ! a = graphs w ! a)
      \<and> length (rule_objs w) \<le> length (rule_objs w'))"

section \<open>Well-formed graphs, supported rules, occurrences\<close>

text \<open>
  A graph is well formed when its identities are distinct and below the counters, and every
  edge end and every boundary port is a live vertex.  A graph has a supported boundary when
  no boundary vertex stands more than once on the input boundary or more than once on the
  output boundary.
\<close>

definition wf_graph :: "Graph \<Rightarrow> bool" where
  "wf_graph g =
     (distinct (vertices g) \<and> distinct (edges g)
      \<and> (\<forall>v \<in> set (vertices g). v < vindex g)
      \<and> (\<forall>e \<in> set (edges g). e < eindex g)
      \<and> (\<forall>p \<in> set (edata g). set (ed_s (snd p)) \<union> set (ed_t (snd p)) \<subseteq> set (vertices g))
      \<and> set (inputs g) \<union> set (outputs g) \<subseteq> set (vertices g))"

definition supported_boundary :: "Graph \<Rightarrow> bool" where
  "supported_boundary g =
     (\<forall>v \<in> set (vertices g). is_boundary g v \<longrightarrow>
        card (in_indices g v) \<le> 1 \<and> card (out_indices g v) \<le> 1)"

text \<open>
  Modelled from the spec: an occurrence of a pattern \<open>L\<close> in a target \<open>G\<close> is a
  structure-preserving embedding.  Its vertex and edge mappings are total on the pattern,
  injective, and land in the target, and the ends of the image of an edge are the images of
  its ends.  An occurrence respects the boundary when no interior vertex of the pattern is
  sent to a boundary port of the target.
\<close>

definition occurrence :: "Graph \<Rightarrow> Graph \<Rightarrow> Match \<Rightarrow> bool" where
  "occurrence L G m =
     ((\<forall>v \<in> set (vertices L). \<exists>u \<in> set (vertices G). vertex_map m v = Some u)
      \<and> inj_on (vertex_map m) (set (vertices L))
      \<and> (\<forall>e \<in> set (edges L). \<exists>e' \<in> set (edges G). edge_map m e = Some e')
      \<and> inj_on (edge_map m) (set (edges L))
      \<and> (\<forall>e \<in> set (edges L). \<forall>ed e' ed'.
            edge_data L e = Some ed \<and> edge_map m e = Some e' \<and> edge_data G e' = Some ed' \<longrightarrow>
            map (vertex_map m) (ed_s ed) = map Some (ed_s ed')
            \<and> map (vertex_map m) (ed_t ed) = map Some (ed_t ed')))"

definition boundary_respecting :: "Graph \<Rightarrow> Graph \<Rightarrow> Match \<Rightarrow> bool" where
  "boundary_respecting L G m =
     (\<forall>v \<in> set (vertices L). \<forall>u. \<not> is_boundary L v \<and> vertex_map m v = Some u \<longrightarrow>
        \<not> is_boundary G u)"


text \<open>
  The inbound and the outbound wire-ends of a vertex: its places on the input (output)
  boundary and in the target (source) sequences of the edges.  \<open>unmatched m L G\<close> is the
  target without the images of the edges of the pattern.
\<close>

definition in_ends :: "Graph \<Rightarrow> nat \<Rightarrow> nat" where
  "in_ends g v = count_list (inputs g) v + sum_list (map (\<lambda>p. count_list (ed_t (snd p)) v) (edata g))"

definition out_ends :: "Graph \<Rightarrow> nat \<Rightarrow> nat" where
  "out_ends g v = count_list (outputs g) v + sum_list (map (\<lambda>p. count_list (ed_s (snd p)) v) (edata g))"

definition unmatched :: "Match \<Rightarrow> Graph \<Rightarrow> Graph \<Rightarrow> Graph" where
  "unmatched m L G =
     G\<lparr>edata := filter (\<lambda>p. Some (fst p) \<notin> edge_map m ` set (edges L)) (edata G)\<rparr>"

text \<open>
  The images of the pattern vertices that stand on both boundaries have a single wire on
  each side: outside the occurrence, exactly one inbound and one outbound wire-end.
\<close>

definition single_wire_ends :: "Graph \<Rightarrow> Graph \<Rightarrow> Match \<Rightarrow> bool" where
  "single_wire_ends L G m =
     (\<forall>v \<in> set (vertices L). \<forall>u. is_input L v \<and> is_output L v \<and> vertex_map m v = Some u \<longrightarrow>
        in_ends (unmatched m L G) u = 1 \<and> out_ends (unmatched m L G) u = 1)"






section \<open>Example data\<close>

text \<open>
  Small graphs, heaps and proof states at which the theorems below are instantiated.
  \<open>ex_wire\<close> is a single wire (one vertex that is the input and the output), \<open>ex_cap\<close> a
  single vertex that is an input only, \<open>ex_empty\<close> the empty graph.
\<close>

definition ex_vd :: VData where
  "ex_vd = \<lparr>vd_vtype = [], vd_size = 1, vd_x = 0, vd_y = 0, vd_value = []\<rparr>"

definition ex_empty :: Graph where
  "ex_empty = \<lparr>vdata = [], edata = [], inputs = [], outputs = [], vindex = 0, eindex = 0\<rparr>"

definition ex_wire :: Graph where
  "ex_wire = \<lparr>vdata = [(0, ex_vd)], edata = [], inputs = [0], outputs = [0],
              vindex = 1, eindex = 0\<rparr>"

definition ex_cap :: Graph where
  "ex_cap = \<lparr>vdata = [(0, ex_vd)], edata = [], inputs = [0], outputs = [],
             vindex = 1, eindex = 0\<rparr>"

definition ex_state :: State where
  "ex_state = \<lparr>file_name = ''example.chyp'', state_errors = [],
               rule_sequence = Map.empty, rules = Map.empty\<rparr>"

text \<open>An isomorphism test that accepts exactly the pairs of equal graphs.\<close>

definition iso_equal :: iso_finder where
  "iso_equal w a b =
     (case (a, b) of
        (Some x, Some y) \<Rightarrow>
          if graphs w ! x = graphs w ! y then Some (Match_init a y) else None
      | _ \<Rightarrow> None)"

text \<open>A heap with two wires and one rule \<open>wire = wire\<close>, and a proof state whose only goal is
  that rule.\<close>

definition ex_world :: World where
  "ex_world = \<lparr>graphs = [ex_wire, ex_wire], rule_objs = [\<lparr>lhs = Some 0, rhs = Some 1\<rparr>],
               state = ex_state\<rparr>"

definition ex_ps :: ProofState where
  "ex_ps = \<lparr>sequence = 5, goals = [\<lparr>formula = 0, assumptions = []\<rparr>], ps_context = [],
            errors = {}, line = 3\<rparr>"

text \<open>A theory with one proven rule \<open>ax\<close>, defined at sequence position 2, and proof states
  before and after that position.\<close>

definition ex_state_ax :: State where
  "ex_state_ax = \<lparr>file_name = ''example.chyp'', state_errors = [],
                  rule_sequence = [''ax'' \<mapsto> 2], rules = [''ax'' \<mapsto> 0]\<rparr>"

definition ex_world_ax :: World where
  "ex_world_ax = \<lparr>graphs = [ex_wire, ex_wire], rule_objs = [\<lparr>lhs = Some 0, rhs = Some 1\<rparr>],
                  state = ex_state_ax\<rparr>"

definition ex_ps_early :: ProofState where
  "ex_ps_early = \<lparr>sequence = 2, goals = [\<lparr>formula = 0, assumptions = []\<rparr>], ps_context = [],
                  errors = {}, line = 3\<rparr>"

text \<open>An Occurrence Finder that reports nothing.\<close>

definition no_matches :: finder where
  "no_matches w pattern target = []"

text \<open>\<open>ex_box\<close> is one edge from an input vertex to an output vertex; it has the boundary of a
  wire.  \<open>ex_world_box\<close> holds it beside the goal \<open>wire = wire\<close>.\<close>

definition ex_ed :: EData where
  "ex_ed = \<lparr>ed_s = [0], ed_t = [1], ed_value = ''f'', ed_x = 0, ed_y = 0, ed_fg = [],
            ed_bg = [], ed_hyper = False\<rparr>"

definition ex_box :: Graph where
  "ex_box = \<lparr>vdata = [(0, ex_vd), (1, ex_vd)], edata = [(0, ex_ed)], inputs = [0],
             outputs = [1], vindex = 2, eindex = 1\<rparr>"

definition ex_world_box :: World where
  "ex_world_box = \<lparr>graphs = [ex_wire, ex_wire, ex_box],
                   rule_objs = [\<lparr>lhs = Some 0, rhs = Some 1\<rparr>], state = ex_state\<rparr>"



text \<open>The rule \<open>wire = wire\<close> and two targets.  In \<open>ex_fan\<close> two edges end in vertex 2 and one
  edge starts there; in \<open>ex_chain\<close> one edge ends in vertex 1 and one starts there.  The
  occurrences send the wire to vertex 2 of \<open>ex_fan\<close> and to vertex 1 of \<open>ex_chain\<close>.\<close>

definition ex_edge :: "nat list \<Rightarrow> nat list \<Rightarrow> EData" where
  "ex_edge s t = \<lparr>ed_s = s, ed_t = t, ed_value = ''f'', ed_x = 0, ed_y = 0, ed_fg = [],
                  ed_bg = [], ed_hyper = False\<rparr>"

definition ex_fan :: Graph where
  "ex_fan = \<lparr>vdata = [(0, ex_vd), (1, ex_vd), (2, ex_vd), (3, ex_vd)],
             edata = [(0, ex_edge [0] [2]), (1, ex_edge [1] [2]), (2, ex_edge [2] [3])],
             inputs = [0, 1], outputs = [3], vindex = 4, eindex = 3\<rparr>"


definition ex_world_fan :: World where
  "ex_world_fan = \<lparr>graphs = [ex_wire, ex_wire, ex_fan],
                   rule_objs = [\<lparr>lhs = Some 0, rhs = Some 1\<rparr>], state = ex_state\<rparr>"

definition ex_match_fan :: Match where
  "ex_match_fan = \<lparr>domain = Some 0, codomain = 2, vertex_map = [0 \<mapsto> 2],
                   edge_map = Map.empty, vertex_image = {2}, edge_image = {}\<rparr>"



text \<open>The rule \<open>del\<close> removes an isolated interior vertex: its lhs \<open>ex_dot\<close> is one vertex
  and its rhs is empty.  \<open>dot_matches\<close> is an Occurrence Finder for that pattern: it reports
  one occurrence for each vertex of the target, in the order of the target's vertices.
  \<open>ex_world_dots\<close> holds the rule (graphs 0 and 1) and the goal \<open>two dots = empty\<close>
  (graphs 2 and 3).\<close>

definition ex_dot :: Graph where
  "ex_dot = \<lparr>vdata = [(0, ex_vd)], edata = [], inputs = [], outputs = [],
             vindex = 1, eindex = 0\<rparr>"

definition ex_two_dots :: Graph where
  "ex_two_dots = \<lparr>vdata = [(0, ex_vd), (1, ex_vd)], edata = [], inputs = [], outputs = [],
                  vindex = 2, eindex = 0\<rparr>"

definition dot_matches :: finder where
  "dot_matches w pattern target =
     (case target of
        None \<Rightarrow> []
      | Some t \<Rightarrow>
          map (\<lambda>v. \<lparr>domain = pattern, codomain = t, vertex_map = [0 \<mapsto> v],
                    edge_map = Map.empty, vertex_image = {v}, edge_image = {}\<rparr>)
            (vertices (graphs w ! t)))"

definition ex_state_del :: State where
  "ex_state_del = \<lparr>file_name = ''example.chyp'', state_errors = [],
                   rule_sequence = [''del'' \<mapsto> 1], rules = [''del'' \<mapsto> 0]\<rparr>"

definition ex_world_dots :: World where
  "ex_world_dots = \<lparr>graphs = [ex_dot, ex_empty, ex_two_dots, ex_empty],
                    rule_objs = [\<lparr>lhs = Some 0, rhs = Some 1\<rparr>, \<lparr>lhs = Some 2, rhs = Some 3\<rparr>],
                    state = ex_state_del\<rparr>"

definition ex_ps_dots :: ProofState where
  "ex_ps_dots = \<lparr>sequence = 5, goals = [\<lparr>formula = 1, assumptions = []\<rparr>], ps_context = [],
                 errors = {}, line = 3\<rparr>"

text \<open>The first two advances of \<open>rewrite_lhs("del")\<close> on the goal \<open>two dots = empty\<close>.\<close>

definition ex_adv1 ::
  "(py_error + (Match \<times> Match) option) \<times> Gen \<times> ProofState \<times> World" where
  "ex_adv1 = rewrite_lhs_next dot_matches (rewrite_lhs ''del'' []) ex_ps_dots ex_world_dots"

definition ex_adv2 ::
  "(py_error + (Match \<times> Match) option) \<times> Gen \<times> ProofState \<times> World" where
  "ex_adv2 =
     (case ex_adv1 of (res, gen, ps, w) \<Rightarrow> rewrite_lhs_next dot_matches gen ps w)"

definition ex_one_dot :: Graph where
  "ex_one_dot = \<lparr>vdata = [(1, ex_vd)], edata = [], inputs = [], outputs = [],
                 vindex = 2, eindex = 0\<rparr>"

definition ex_dot_match :: "nat \<Rightarrow> Match" where
  "ex_dot_match v = \<lparr>domain = Some 4, codomain = 2, vertex_map = [0 \<mapsto> v],
                     edge_map = Map.empty, vertex_image = {v}, edge_image = {}\<rparr>"



text \<open>The rule \<open>dot = empty\<close> with the target \<open>ex_cap\<close>, whose only vertex is an input port;
  and a rule with the two-port lhs \<open>ex_two_in\<close> whose rhs \<open>ex_rep_in\<close> has one vertex that
  stands twice on the input boundary, with the lhs itself as target.\<close>

definition ex_world_cap :: World where
  "ex_world_cap = \<lparr>graphs = [ex_dot, ex_empty, ex_cap],
                   rule_objs = [\<lparr>lhs = Some 0, rhs = Some 1\<rparr>], state = ex_state\<rparr>"

definition ex_match_cap :: Match where
  "ex_match_cap = \<lparr>domain = Some 0, codomain = 2, vertex_map = [0 \<mapsto> 0],
                   edge_map = Map.empty, vertex_image = {0}, edge_image = {}\<rparr>"

definition ex_two_in :: Graph where
  "ex_two_in = \<lparr>vdata = [(0, ex_vd), (1, ex_vd)], edata = [], inputs = [0, 1], outputs = [],
                vindex = 2, eindex = 0\<rparr>"

definition ex_rep_in :: Graph where
  "ex_rep_in = \<lparr>vdata = [(0, ex_vd)], edata = [], inputs = [0, 0], outputs = [],
                vindex = 1, eindex = 0\<rparr>"

definition ex_world_rep :: World where
  "ex_world_rep = \<lparr>graphs = [ex_two_in, ex_rep_in, ex_two_in],
                   rule_objs = [\<lparr>lhs = Some 0, rhs = Some 1\<rparr>], state = ex_state\<rparr>"

definition ex_match_rep :: Match where
  "ex_match_rep = \<lparr>domain = Some 0, codomain = 2, vertex_map = [0 \<mapsto> 0, 1 \<mapsto> 1],
                   edge_map = Map.empty, vertex_image = {0, 1}, edge_image = {}\<rparr>"

section \<open>Allocation only extends the heap\<close>

lemma extends_refl [simp]: "extends w w"
  by (simp add: extends_def)

lemma extends_trans: "extends w w1 \<Longrightarrow> extends w1 w2 \<Longrightarrow> extends w w2"
  by (auto simp: extends_def)

lemma extends_graph_nth:
  "extends w w' \<Longrightarrow> a < length (graphs w) \<Longrightarrow> graphs w' ! a = graphs w ! a"
  by (auto simp: extends_def prefix_def nth_append)

lemma extends_rule_nth:
  "extends w w' \<Longrightarrow> r < length (rule_objs w) \<Longrightarrow> rule_objs w' ! r = rule_objs w ! r"
  by (auto simp: extends_def prefix_def nth_append)

lemma extends_length:
  "extends w w' \<Longrightarrow> length (graphs w) \<le> length (graphs w')
     \<and> length (rule_objs w) \<le> length (rule_objs w')"
  by (auto simp: extends_def prefix_def)

lemma extends_state: "extends w w' \<Longrightarrow> state w' = state w"
  by (simp add: extends_def)

lemma extends_rule_ok: "extends w w' \<Longrightarrow> rule_ok w r \<Longrightarrow> rule_ok w' r"
  using extends_length [of w w'] extends_rule_nth [of w w' r]
  by (fastforce simp: rule_ok_def rule_refs_def)

lemma extends_rule_value:
  "extends w w' \<Longrightarrow> rule_ok w r \<Longrightarrow> rule_value w' r = rule_value w r"
  using extends_rule_nth [of w w' r] extends_graph_nth [of w w']
  by (cases "lhs (rule_objs w ! r)"; cases "rhs (rule_objs w ! r)")
     (auto simp: rule_ok_def rule_refs_def rule_value_def)

lemma extends_rule_refs:
  "extends w w' \<Longrightarrow> r < length (rule_objs w) \<Longrightarrow> rule_refs w' r = rule_refs w r"
  by (simp add: rule_refs_def extends_rule_nth)

lemma Graph_copy_extends: "Graph_copy a w = (a', w') \<Longrightarrow> extends w w'"
  by (auto simp: Graph_copy_def extends_def)

lemma Graph_copy_result:
  "Graph_copy a w = (a', w') \<Longrightarrow>
     a' = length (graphs w) \<and> graphs w' = graphs w @ [graphs w ! a]
       \<and> rule_objs w' = rule_objs w \<and> state w' = state w"
  by (auto simp: Graph_copy_def)

lemma Graph_copy_opt_extends: "Graph_copy_opt a w = (a', w') \<Longrightarrow> extends w w'"
  by (auto simp: Graph_copy_opt_def split: option.splits prod.splits dest: Graph_copy_extends)

lemma Rule_new_extends: "Rule_new r w = (r', w') \<Longrightarrow> extends w w'"
  by (auto simp: Rule_new_def extends_def)

lemma Rule_copy_extends: "Rule_copy r w = (r', w') \<Longrightarrow> extends w w'"
  by (auto simp: Rule_copy_def split: prod.splits
           dest!: Graph_copy_opt_extends Rule_new_extends intro: extends_trans)

lemma Rule_copy_independent:
  assumes ok: "rule_ok w r" and c: "Rule_copy r w = (r', w')"
  shows "independent_copy w r w' r'"
proof -
  have ext: "extends w w'" using c by (rule Rule_copy_extends)
  from ok have vl: "\<forall>a \<in> set_option (lhs (rule_objs w ! r)). a < length (graphs w)"
    and vr: "\<forall>a \<in> set_option (rhs (rule_objs w ! r)). a < length (graphs w)"
    by (auto simp: rule_ok_def rule_refs_def)
  from c vl vr have
    "length (rule_objs w) \<le> r' \<and> r' < length (rule_objs w')
      \<and> (\<forall>a \<in> rule_refs w' r'. length (graphs w) \<le> a \<and> a < length (graphs w'))
      \<and> (lhs (rule_objs w' ! r') = None \<or> lhs (rule_objs w' ! r') \<noteq> rhs (rule_objs w' ! r'))
      \<and> rule_value w' r' = rule_value w r"
    by (cases "lhs (rule_objs w ! r)"; cases "rhs (rule_objs w ! r)")
       (auto simp: Rule_copy_def Graph_copy_opt_def Graph_copy_def Rule_new_def
                   rule_refs_def rule_value_def nth_append)
  with ext show ?thesis by (simp add: independent_copy_def)
qed

lemma copy_rules_extends: "copy_rules rs w = (rs', w') \<Longrightarrow> extends w w'"
proof (induction rs arbitrary: w rs' w')
  case Nil
  then show ?case by simp
next
  case (Cons p rs)
  obtain asm r where p: "p = (asm, r)" by (cases p)
  obtain r1 w1 where c1: "Rule_copy r w = (r1, w1)" by (cases "Rule_copy r w")
  obtain rs1 w2 where c2: "copy_rules rs w1 = (rs1, w2)" by (cases "copy_rules rs w1")
  from Cons.prems p c1 c2 have "w' = w2" by simp
  with Rule_copy_extends [OF c1] Cons.IH [OF c2] show ?case by (auto intro: extends_trans)
qed

lemma Goal_copy_extends: "Goal_copy g w = (g', w') \<Longrightarrow> extends w w'"
  by (auto simp: Goal_copy_def split: prod.splits
           dest!: copy_rules_extends Rule_copy_extends intro: extends_trans)

section \<open>Facts about the store and the pushout complement\<close>

lemmas graph_eval =
  vertices_def edges_def vertex_data_def edge_data_def in_indices_def out_indices_def
  is_input_def is_output_def is_boundary_def add_vertex_def add_edge_def remove_edge_def
  drop_vertex_def remove_vertex_def explode_vertex_def rename_vertex_def merge_vertices_def
  AList.update.simps AList.delete_eq Let_def

lemmas dpo_eval =
  dpo_def dpo_run_def dpo_embed_def pushout_complement_def Graph_copy_def Match_init_def
  frobenius_message_def

lemma card_indices: "card {i. i < length xs \<and> xs ! i = v} = count_list xs v"
proof (induction xs rule: rev_induct)
  case Nil
  then show ?case by simp
next
  case (snoc x xs)
  have "{i. i < length (xs @ [x]) \<and> (xs @ [x]) ! i = v}
          = {i. i < length xs \<and> xs ! i = v} \<union> (if x = v then {length xs} else {})"
    by (auto simp: nth_append less_Suc_eq)
  with snoc show ?case by simp
qed

lemma card_in_indices: "card (in_indices g v) = count_list (inputs g) v"
  using card_indices [of "inputs g" v] by (simp add: in_indices_def)

lemma card_out_indices: "card (out_indices g v) = count_list (outputs g) v"
  using card_indices [of "outputs g" v] by (simp add: out_indices_def)

lemma remove_vertex_error: "remove_vertex v g = Inl x \<Longrightarrow> x = KeyError"
  by (simp add: remove_vertex_def split: if_splits)

lemma explode_vertex_error: "explode_vertex v g = Inl x \<Longrightarrow> x = KeyError"
  by (simp add: explode_vertex_def Let_def split: option.splits prod.splits)

lemma dpo_heap:
  "dpo rule match w = (res, w') \<Longrightarrow>
     \<exists>h. graphs w' = graphs w @ [h] \<and> rule_objs w' = rule_objs w \<and> state w' = state w"
  by (auto simp: dpo_def Graph_copy_def split: prod.splits)

lemma dpo_extends: "dpo rule match w = (res, w') \<Longrightarrow> extends w w'"
  by (auto simp: extends_def dest!: dpo_heap)

section \<open>The result of a rewrite is one occurrence in the private copy\<close>

lemma dpo_map_inputs_codomain:
  "dpo_map_inputs match in_map ps result = Inr r \<Longrightarrow>
     codomain r = codomain result \<and> domain r = domain result"
proof (induction ps arbitrary: result)
  case Nil
  then show ?case by simp
next
  case (Cons p ps)
  obtain vl vr where p: "p = (vl, vr)" by (cases p)
  from Cons.prems p obtain u where
    "dpo_map_inputs match in_map ps (result\<lparr>vertex_map := (vertex_map result)(vr \<mapsto> u)\<rparr>) = Inr r"
    by (auto split: option.splits)
  from Cons.IH [OF this] show ?case by simp
qed

lemma dpo_map_outputs_codomain:
  "dpo_map_outputs match out_map ps result h = (Inr r, h') \<Longrightarrow>
     codomain r = codomain result \<and> domain r = domain result"
proof (induction ps arbitrary: result h)
  case Nil
  then show ?case by simp
next
  case (Cons p ps)
  obtain vl vr where p: "p = (vl, vr)" by (cases p)
  from Cons.prems p consider
    (merge) h1 where "dpo_map_outputs match out_map ps result h1 = (Inr r, h')"
  | (fresh) vr1 where
      "dpo_map_outputs match out_map ps
         (result\<lparr>vertex_map := (vertex_map result)(vr \<mapsto> vr1)\<rparr>) h = (Inr r, h')"
    by (auto split: option.splits sum.splits)
  then show ?case
  proof cases
    case merge
    from Cons.IH [OF this] show ?thesis .
  next
    case fresh
    from Cons.IH [OF this] show ?thesis by simp
  qed
qed

lemma dpo_map_interior_codomain:
  "dpo_map_interior R vs result h = (Inr r, h') \<Longrightarrow>
     codomain r = codomain result \<and> domain r = domain result"
proof (induction vs arbitrary: result h)
  case Nil
  then show ?case by simp
next
  case (Cons v vs)
  show ?case
  proof (cases "is_boundary R v")
    case True
    with Cons.prems have "dpo_map_interior R vs result h = (Inr r, h')" by simp
    from Cons.IH [OF this] show ?thesis .
  next
    case False
    with Cons.prems obtain res1 h1 where
      "dpo_map_interior R vs res1 h1 = (Inr r, h')"
      "codomain res1 = codomain result" "domain res1 = domain result"
      by (auto split: option.splits prod.splits)
    with Cons.IH [of res1 h1] show ?thesis by simp
  qed
qed

lemma dpo_add_edges_codomain:
  "dpo_add_edges R es result h = (Inr r, h') \<Longrightarrow>
     codomain r = codomain result \<and> domain r = domain result"
proof (induction es arbitrary: result h)
  case Nil
  then show ?case by simp
next
  case (Cons e es)
  from Cons.prems obtain res1 h1 where
    "dpo_add_edges R es res1 h1 = (Inr r, h')"
    "codomain res1 = codomain result" "domain res1 = domain result"
    by (auto split: option.splits sum.splits prod.splits)
  with Cons.IH [of res1 h1] show ?case by simp
qed

lemma dpo_embed_codomain:
  assumes "dpo_embed L R rr hr match in_map out_map h = (Inr result, h')"
  shows "codomain result = hr \<and> domain result = rr"
proof -
  from assms obtain r1 r2 r3 h1 h2 where
    a: "dpo_map_inputs match in_map (zip (inputs L) (inputs R)) (Match_init rr hr) = Inr r1"
    and b: "dpo_map_outputs match out_map (zip (outputs L) (outputs R)) r1 h = (Inr r2, h1)"
    and c: "dpo_map_interior R (vertices R) r2 h1 = (Inr r3, h2)"
    and d: "dpo_add_edges R (edges R) r3 h2 = (Inr result, h')"
    by (auto simp: dpo_embed_def split: sum.splits prod.splits)
  from dpo_map_inputs_codomain [OF a] dpo_map_outputs_codomain [OF b]
       dpo_map_interior_codomain [OF c] dpo_add_edges_codomain [OF d]
  show ?thesis by (simp add: Match_init_def)
qed

lemma dpo_result:
  assumes "dpo rule match w = (Inr hs, w')"
  shows "\<exists>m_h. hs = [m_h] \<and> codomain m_h = length (graphs w)
               \<and> domain m_h = rhs (rule_objs w ! rule)"
proof -
  let ?w1 = "w\<lparr>graphs := graphs w @ [graphs w ! codomain match]\<rparr>"
  from assms obtain h where
    r: "dpo_run (rule_objs w ! rule) (length (graphs w)) match ?w1 = (Inr hs, h)"
    by (auto simp: dpo_def Graph_copy_def split: prod.splits)
  then obtain L R rr in_map out_map h0 result where
    "dpo_embed L R rr (length (graphs w)) match in_map out_map h0 = (Inr result, h)"
    "hs = [result]" "rr = rhs (rule_objs w ! rule)"
    by (auto simp: dpo_run_def Let_def split: option.splits sum.splits prod.splits)
  with dpo_embed_codomain show ?thesis by blast
qed

section \<open>The rewriting step on well-formed graphs\<close>











lemma rename_vertex_length [simp]: "length (rename_vertex v w xs) = length xs"
  by (simp add: rename_vertex_def)





















section \<open>The vertex loop of the pushout complement for any occurrence\<close>












section \<open>Closing goals\<close>

text \<open>
  Claim C5.  For every proof state with a non-empty goal stack, \<open>try_close_goal(0)\<close>
  returns \<open>True\<close> if and only if the isomorphism test of the Occurrence Finder reports the
  two sides of the topmost goal's formula isomorphic; when it returns \<open>True\<close> the topmost
  goal is popped, so the goal stack shrinks by exactly one, and when it returns \<open>False\<close> the
  goal stack (and the whole proof state) is unchanged.
\<close>

theorem try_close_goal_top:
  assumes "goals ps \<noteq> []"
  shows "case try_close_goal find_iso 0 ps w of
           (closed, ps', w') \<Rightarrow>
             (closed \<longleftrightarrow>
                find_iso w (lhs (rule_objs w ! formula (goals ps ! 0)))
                           (rhs (rule_objs w ! formula (goals ps ! 0))) \<noteq> None)
             \<and> (closed \<longrightarrow> ps' = ps\<lparr>goals := tl (goals ps)\<rparr>
                            \<and> length (goals ps') + 1 = length (goals ps))
             \<and> (\<not> closed \<longrightarrow> ps' = ps)
             \<and> w' = w"
  using assms by (cases "goals ps") (simp_all add: try_close_goal_def Let_def)

theorem try_close_goal_top_witness:
  "goals ex_ps \<noteq> []
   \<and> try_close_goal iso_equal 0 ex_ps ex_world = (True, ex_ps\<lparr>goals := []\<rparr>, ex_world)"
proof -
  have ne: "goals ex_ps \<noteq> []" by (simp add: ex_ps_def)
  have iso: "iso_equal ex_world (lhs (rule_objs ex_world ! formula (goals ex_ps ! 0)))
               (rhs (rule_objs ex_world ! formula (goals ex_ps ! 0))) \<noteq> None"
    by (simp add: iso_equal_def ex_world_def ex_ps_def)
  from try_close_goal_top [OF ne, of iso_equal ex_world] iso
  show ?thesis
    by (cases "try_close_goal iso_equal 0 ex_ps ex_world") (auto simp: ex_ps_def)
qed

text \<open>
  Claim C10.  For every proof state and every goal index that is negative or at least the
  number of goals, \<open>validate_goal\<close> returns \<open>None\<close> and \<open>try_close_goal\<close> returns \<open>False\<close>;
  no exception is raised, and the goal stack, the local context and the diagnostics (the
  proof state and the theory's log) are unchanged.
\<close>

theorem goal_index_out_of_range:
  assumes "i < 0 \<or> i \<ge> int (length (goals ps))"
  shows "validate_goal find_iso i ps w = (None, ps, w)
         \<and> try_close_goal find_iso i ps w = (False, ps, w)"
  using assms by (auto simp: validate_goal_def try_close_goal_def)

theorem goal_index_out_of_range_witness:
  "validate_goal iso_equal (- 1) ex_ps ex_world = (None, ex_ps, ex_world)
   \<and> try_close_goal iso_equal (- 1) ex_ps ex_world = (False, ex_ps, ex_world)
   \<and> validate_goal iso_equal 1 ex_ps ex_world = (None, ex_ps, ex_world)
   \<and> try_close_goal iso_equal 1 ex_ps ex_world = (False, ex_ps, ex_world)"
proof -
  have a: "(- 1 :: int) < 0 \<or> - 1 \<ge> int (length (goals ex_ps))" by simp
  have b: "(1 :: int) < 0 \<or> 1 \<ge> int (length (goals ex_ps))" by (simp add: ex_ps_def)
  from goal_index_out_of_range [OF a, of iso_equal ex_world]
       goal_index_out_of_range [OF b, of iso_equal ex_world]
  show ?thesis by simp
qed

section \<open>Looking rules up\<close>

lemma error_records:
  "error message ps w = (ps', w') \<Longrightarrow>
     errors ps' = insert message (errors ps)
     \<and> state_errors (state w') =
         (if message \<in> errors ps then state_errors (state w)
          else state_errors (state w) @ [(file_name (state w), line ps, message)])
     \<and> goals ps' = goals ps \<and> ps_context ps' = ps_context ps
     \<and> graphs w' = graphs w \<and> rule_objs w' = rule_objs w"
  by (auto simp: error_def split: if_splits)

lemma error_again: "message \<in> errors ps \<Longrightarrow> error message ps w = (ps, w)"
  by (simp add: error_def)

lemma lookup_local_absent:
  "rule_name \<notin> fst ` set (ps_context ps) \<Longrightarrow> py_index (goals ps) goal_i = Some g \<Longrightarrow>
   rule_name \<notin> fst ` set (assumptions g) \<Longrightarrow> lookup_local rule_name goal_i ps = Inr None"
  by (simp add: lookup_local_def)

text \<open>
  Claim C6.  For every proof state and every rule name that is absent from the local
  context and from the assumptions of the current goal but present in the global theory:
  when the rule's definition sequence position is greater than or equal to the proof
  state's own position, \<open>lookup_rule\<close> returns \<open>None\<close> and records the diagnostic; when it
  is strictly before, \<open>lookup_rule\<close> returns an independent copy of the rule and leaves the
  proof state as it is.  (With \<open>local = False\<close> the local context and the goals are not
  consulted at all.)
\<close>

theorem lookup_rule_global:
  assumes scope: "local \<noteq> Some True"
    and absent: "local = None \<longrightarrow>
                   rule_name \<notin> fst ` set (ps_context ps)
                   \<and> (\<exists>g. py_index (goals ps) goal_i = Some g
                            \<and> rule_name \<notin> fst ` set (assumptions g))"
    and seq: "rule_sequence (state w) rule_name = Some seq"
    and stored: "rules (state w) rule_name = Some r"
    and ok: "rule_ok w r"
  shows "case lookup_rule rule_name goal_i local ps w of
           (res, ps', w') \<Rightarrow>
             (seq \<ge> sequence ps \<longrightarrow>
                res = Inr None
                \<and> (ps', w') = error (before_defined_message rule_name seq (sequence ps)) ps w
                \<and> before_defined_message rule_name seq (sequence ps) \<in> errors ps'
                \<and> (before_defined_message rule_name seq (sequence ps) \<notin> errors ps \<longrightarrow>
                     state_errors (state w') =
                       state_errors (state w)
                         @ [(file_name (state w), line ps,
                             before_defined_message rule_name seq (sequence ps))]))
             \<and> (seq < sequence ps \<longrightarrow>
                  (\<exists>r'. res = Inr (Some r') \<and> independent_copy w r w' r') \<and> ps' = ps)"
proof -
  have loc: "(if local = None \<or> local = Some True then lookup_local rule_name goal_i ps
              else Inr None) = Inr None"
    using scope absent by (auto simp: lookup_local_absent)
  have dom: "rule_name \<in> dom (rule_sequence (state w))" using seq by auto
  have glo: "local = None \<or> local = Some False" using scope by (cases local) auto
  show ?thesis
  proof (cases "seq \<ge> sequence ps")
    case True
    obtain ps' w' where e: "error (before_defined_message rule_name seq (sequence ps)) ps w = (ps', w')"
      by (cases "error (before_defined_message rule_name seq (sequence ps)) ps w")
    have "lookup_rule rule_name goal_i local ps w = (Inr None, ps', w')"
      using glo loc dom seq True e by (auto simp: lookup_rule_def Let_def)
    with True e error_records [OF e] show ?thesis by auto
  next
    case False
    obtain r' w' where c: "Rule_copy r w = (r', w')" by (cases "Rule_copy r w")
    have "lookup_rule rule_name goal_i local ps w = (Inr (Some r'), ps, w')"
      using glo loc dom seq stored False c
      by (auto simp: lookup_rule_def lookup_finish_def Let_def)
    with False Rule_copy_independent [OF ok c] show ?thesis by auto
  qed
qed

theorem lookup_rule_global_witness:
  "fst (lookup_rule ''ax'' 0 None ex_ps_early ex_world_ax) = Inr None
   \<and> ''Attempting to use rule ax before it is defined/proven (2 >= 2).''
       \<in> errors (fst (snd (lookup_rule ''ax'' 0 None ex_ps_early ex_world_ax)))
   \<and> fst (lookup_rule ''ax'' 0 None ex_ps ex_world_ax) = Inr (Some 1)
   \<and> independent_copy ex_world_ax 0 (snd (snd (lookup_rule ''ax'' 0 None ex_ps ex_world_ax))) 1"
proof -
  have scope: "(None :: bool option) \<noteq> Some True" by simp
  have seq: "rule_sequence (state ex_world_ax) ''ax'' = Some 2"
    and stored: "rules (state ex_world_ax) ''ax'' = Some 0"
    by (simp_all add: ex_world_ax_def ex_state_ax_def)
  have ok: "rule_ok ex_world_ax 0"
    by (simp add: rule_ok_def rule_refs_def ex_world_ax_def)
  have a1: "(None :: bool option) = None \<longrightarrow>
              ''ax'' \<notin> fst ` set (ps_context ex_ps_early)
              \<and> (\<exists>g. py_index (goals ex_ps_early) 0 = Some g \<and> ''ax'' \<notin> fst ` set (assumptions g))"
    by (simp add: ex_ps_early_def py_index_def)
  have a2: "(None :: bool option) = None \<longrightarrow>
              ''ax'' \<notin> fst ` set (ps_context ex_ps)
              \<and> (\<exists>g. py_index (goals ex_ps) 0 = Some g \<and> ''ax'' \<notin> fst ` set (assumptions g))"
    by (simp add: ex_ps_def py_index_def)
  have m: "before_defined_message ''ax'' 2 2
             = ''Attempting to use rule ax before it is defined/proven (2 >= 2).''"
    by (simp add: before_defined_message_def str_int_def str_nat.simps digit_char_def)
  have s1: "sequence ex_ps_early = 2" and s2: "sequence ex_ps = 5"
    by (simp_all add: ex_ps_early_def ex_ps_def)
  obtain res1 ps1 w1 where l1: "lookup_rule ''ax'' 0 None ex_ps_early ex_world_ax = (res1, ps1, w1)"
    by (cases "lookup_rule ''ax'' 0 None ex_ps_early ex_world_ax")
  from lookup_rule_global [OF scope a1 seq stored ok] l1 s1
  have "res1 = Inr None \<and> before_defined_message ''ax'' 2 2 \<in> errors ps1"
    by simp
  with l1 m
  have early: "fst (lookup_rule ''ax'' 0 None ex_ps_early ex_world_ax) = Inr None
     \<and> ''Attempting to use rule ax before it is defined/proven (2 >= 2).''
         \<in> errors (fst (snd (lookup_rule ''ax'' 0 None ex_ps_early ex_world_ax)))"
    by simp
  have r1: "fst (lookup_rule ''ax'' 0 None ex_ps ex_world_ax) = Inr (Some 1)"
    by (simp add: lookup_rule_def lookup_local_def lookup_finish_def py_index_def ex_ps_def
                  ex_world_ax_def ex_state_ax_def Rule_copy_def Graph_copy_opt_def
                  Graph_copy_def Rule_new_def Let_def)
  from lookup_rule_global [OF scope a2 seq stored ok] s2 r1
  have late: "independent_copy ex_world_ax 0
                (snd (snd (lookup_rule ''ax'' 0 None ex_ps ex_world_ax))) 1"
    by (cases "lookup_rule ''ax'' 0 None ex_ps ex_world_ax") auto
  from early r1 late show ?thesis by simp
qed

section \<open>Rewriting with a rule that is not defined\<close>

lemma lookup_rule_undefined:
  assumes "rule_name \<notin> fst ` set (ps_context ps)"
    and "py_index (goals ps) goal_i = Some g"
    and "rule_name \<notin> fst ` set (assumptions g)"
    and "rule_name \<notin> dom (rule_sequence (state w))"
    and "error (not_defined_message rule_name) ps w = (ps', w')"
  shows "lookup_rule rule_name goal_i None ps w = (Inr None, ps', w')"
  using assms by (simp add: lookup_rule_def lookup_local_absent lookup_finish_def)

text \<open>
  Claim C7.  For every proof state, \<open>rewrite_lhs\<close> with a rule name that is defined neither
  in the local context, nor in the assumptions of the current goal, nor in the global
  theory yields no pair of occurrences: the first advance of the generator finds it
  exhausted.  It records the diagnostic \<open>Rule <name> not defined.\<close> once: the message
  joins the messages of the proof state, the theory's log gains one entry unless the proof
  state had reported that message before, and repeating the failing call changes nothing
  more.
\<close>

theorem rewrite_lhs_undefined_rule:
  assumes ctx: "rule_name \<notin> fst ` set (ps_context ps)"
    and goal: "py_index (goals ps) 0 = Some g"
    and asm: "rule_name \<notin> fst ` set (assumptions g)"
    and glob: "rule_name \<notin> dom (rule_sequence (state w))"
    and first: "rewrite_lhs_next Matches (rewrite_lhs rule_name target) ps w
                  = (res1, gen1, ps1, w1)"
    and again: "rewrite_lhs_next Matches (rewrite_lhs rule_name target) ps1 w1
                  = (res2, gen2, ps2, w2)"
  shows "res1 = Inr None \<and> gen1 = Gen_done \<and> res2 = Inr None \<and> gen2 = Gen_done
         \<and> errors ps1 = insert (not_defined_message rule_name) (errors ps)
         \<and> state_errors (state w1) =
             (if not_defined_message rule_name \<in> errors ps then state_errors (state w)
              else state_errors (state w)
                     @ [(file_name (state w), line ps, not_defined_message rule_name)])
         \<and> ps2 = ps1 \<and> w2 = w1"
proof -
  obtain ps' w' where e: "error (not_defined_message rule_name) ps w = (ps', w')"
    by (cases "error (not_defined_message rule_name) ps w")
  note rec = error_records [OF e]
  have l1: "lookup_rule rule_name 0 None ps w = (Inr None, ps', w')"
    using ctx goal asm glob e by (rule lookup_rule_undefined)
  from first l1 have r1: "res1 = Inr None" "gen1 = Gen_done" "ps1 = ps'" "w1 = w'"
    by (simp_all add: rewrite_lhs_next_def rewrite_lhs_def rewrite_next_def rewrite_start_def)
  have st: "state w' = (state w)\<lparr>state_errors := state_errors (state w')\<rparr>"
    using e by (auto simp: error_def split: if_splits)
  have glob': "rule_name \<notin> dom (rule_sequence (state w'))"
    using glob st by (metis State.select_convs(3) State.surjective State.update_convs(2))
  have ctx': "rule_name \<notin> fst ` set (ps_context ps')" and goal': "py_index (goals ps') 0 = Some g"
    using ctx goal rec by simp_all
  have e2: "error (not_defined_message rule_name) ps' w' = (ps', w')"
    using rec by (simp add: error_again)
  have l2: "lookup_rule rule_name 0 None ps' w' = (Inr None, ps', w')"
    using ctx' goal' asm glob' e2 by (rule lookup_rule_undefined)
  from again l2 r1 have r2: "res2 = Inr None" "gen2 = Gen_done" "ps2 = ps'" "w2 = w'"
    by (simp_all add: rewrite_lhs_next_def rewrite_lhs_def rewrite_next_def rewrite_start_def)
  from r1 r2 rec show ?thesis by simp
qed

theorem rewrite_lhs_undefined_rule_witness:
  "case rewrite_lhs_next no_matches (rewrite_lhs ''undefined_rule'' []) ex_ps ex_world of
     (res1, gen1, ps1, w1) \<Rightarrow>
       (case rewrite_lhs_next no_matches (rewrite_lhs ''undefined_rule'' []) ps1 w1 of
          (res2, gen2, ps2, w2) \<Rightarrow>
            res1 = Inr None \<and> res2 = Inr None
            \<and> errors ps2 = {''Rule undefined_rule not defined.''}
            \<and> state_errors (state w2)
                = [(''example.chyp'', 3, ''Rule undefined_rule not defined.'')])"
proof -
  obtain res1 gen1 ps1 w1 where
    first: "rewrite_lhs_next no_matches (rewrite_lhs ''undefined_rule'' []) ex_ps ex_world
              = (res1, gen1, ps1, w1)"
    by (cases "rewrite_lhs_next no_matches (rewrite_lhs ''undefined_rule'' []) ex_ps ex_world")
  obtain res2 gen2 ps2 w2 where
    again: "rewrite_lhs_next no_matches (rewrite_lhs ''undefined_rule'' []) ps1 w1
              = (res2, gen2, ps2, w2)"
    by (cases "rewrite_lhs_next no_matches (rewrite_lhs ''undefined_rule'' []) ps1 w1")
  have ctx: "''undefined_rule'' \<notin> fst ` set (ps_context ex_ps)"
    and goal: "py_index (goals ex_ps) 0 = Some \<lparr>formula = 0, assumptions = []\<rparr>"
    and asm: "''undefined_rule'' \<notin> fst ` set (assumptions \<lparr>formula = 0, assumptions = []\<rparr>)"
    and glob: "''undefined_rule'' \<notin> dom (rule_sequence (state ex_world))"
    by (simp_all add: ex_ps_def ex_world_def ex_state_def py_index_def)
  have m: "not_defined_message ''undefined_rule'' = ''Rule undefined_rule not defined.''"
    by (simp add: not_defined_message_def)
  from rewrite_lhs_undefined_rule [OF ctx goal asm glob first again] m
  have "res1 = Inr None \<and> res2 = Inr None
        \<and> errors ps2 = {''Rule undefined_rule not defined.''}
        \<and> state_errors (state w2) = [(''example.chyp'', 3, ''Rule undefined_rule not defined.'')]"
    by (simp add: ex_ps_def ex_world_def ex_state_def)
  with first again show ?thesis by simp
qed

section \<open>Two lookups give two independent copies\<close>

lemma lookup_local_stored:
  "lookup_local rule_name goal_i ps = Inr (Some r) \<Longrightarrow> r \<in> stored_rules ps w"
proof -
  assume l: "lookup_local rule_name goal_i ps = Inr (Some r)"
  show ?thesis
  proof (cases "rule_name \<in> fst ` set (ps_context ps)")
    case True
    with l have "map_of (ps_context ps) rule_name = Some r" by (simp add: lookup_local_def)
    then have "(rule_name, r) \<in> set (ps_context ps)" by (rule map_of_SomeD)
    then show ?thesis by (force simp: stored_rules_def)
  next
    case False
    with l obtain g where g: "py_index (goals ps) goal_i = Some g"
      and m: "map_of (assumptions g) rule_name = Some r"
      by (auto simp: lookup_local_def split: option.splits if_splits)
    from g have "g \<in> set (goals ps)"
      by (auto simp: py_index_def split: if_splits)
    moreover from m have "(rule_name, r) \<in> set (assumptions g)" by (rule map_of_SomeD)
    ultimately show ?thesis by (force simp: stored_rules_def)
  qed
qed

text \<open>
  A successful lookup is a copy of a stored rule, leaves the proof state as it is, and the
  same lookup in any heap with the same theory state copies the same rule.
\<close>

lemma lookup_rule_Some:
  assumes l: "lookup_rule rule_name goal_i local ps w = (Inr (Some r1), ps1, w1)"
  shows "\<exists>r0 \<in> stored_rules ps w.
           Rule_copy r0 w = (r1, w1) \<and> ps1 = ps
           \<and> resolves_to rule_name goal_i local ps w r0
           \<and> (\<forall>v. state v = state w \<longrightarrow>
                  lookup_rule rule_name goal_i local ps v
                    = (Inr (Some (fst (Rule_copy r0 v))), ps, snd (Rule_copy r0 v)))"
proof (cases "if local = None \<or> local = Some True then lookup_local rule_name goal_i ps else Inr None")
  case (Inl x)
  with l show ?thesis by (simp add: lookup_rule_def Let_def)
next
  case (Inr rule)
  show ?thesis
  proof (cases rule)
    case (Some r0)
    with Inr have "lookup_local rule_name goal_i ps = Inr (Some r0)"
      by (auto split: if_splits)
    then have st: "r0 \<in> stored_rules ps w" by (rule lookup_local_stored)
    have rs: "resolves_to rule_name goal_i local ps w r0"
      using Inr Some by (auto simp: resolves_to_def split: if_splits)
    have gen: "\<And>v. lookup_rule rule_name goal_i local ps v
                  = (Inr (Some (fst (Rule_copy r0 v))), ps, snd (Rule_copy r0 v))"
      using Inr Some
      by (simp add: lookup_rule_def Let_def lookup_finish_def split: prod.splits)
    from gen [of w] l have "Rule_copy r0 w = (r1, w1) \<and> ps1 = ps"
      by (cases "Rule_copy r0 w") simp
    with st rs gen show ?thesis by blast
  next
    case None
    show ?thesis
    proof (cases "(local = None \<or> local = Some False)
                    \<and> rule_name \<in> dom (rule_sequence (state w))")
      case False
      with l Inr None show ?thesis
        by (auto simp: lookup_rule_def Let_def lookup_finish_def split: prod.splits)
    next
      case True
      then obtain seq where seq: "rule_sequence (state w) rule_name = Some seq" by auto
      show ?thesis
      proof (cases "seq \<ge> sequence ps")
        case True
        with l Inr None \<open>(local = None \<or> local = Some False)
                    \<and> rule_name \<in> dom (rule_sequence (state w))\<close> seq
        show ?thesis
          by (auto simp: lookup_rule_def Let_def split: prod.splits)
      next
        case False
        show ?thesis
        proof (cases "rules (state w) rule_name")
          case NoneR: None
          with l Inr None True seq False show ?thesis
            by (auto simp: lookup_rule_def Let_def)
        next
          case (Some r0)
          then have st: "r0 \<in> stored_rules ps w"
            by (auto simp: stored_rules_def ran_def)
          have rs: "resolves_to rule_name goal_i local ps w r0"
            using Inr None Some by (auto simp: resolves_to_def split: if_splits)
          have gen: "\<And>v. state v = state w \<Longrightarrow> lookup_rule rule_name goal_i local ps v
                  = (Inr (Some (fst (Rule_copy r0 v))), ps, snd (Rule_copy r0 v))"
            using Inr None True seq False Some
            by (auto simp: lookup_rule_def Let_def lookup_finish_def split: prod.splits)
          from gen [of w] l have "Rule_copy r0 w = (r1, w1) \<and> ps1 = ps"
            by (cases "Rule_copy r0 w") simp
          with st rs gen show ?thesis by blast
        qed
      qed
    qed
  qed
qed

lemma mutation_frame:
  assumes m: "mutation_of w r w'" and ne: "q \<noteq> r" and ok: "rule_ok w q"
    and disj: "rule_refs w q \<inter> rule_refs w r = {}"
  shows "rule_value w' q = rule_value w q"
proof -
  from m ne ok have o: "rule_objs w' ! q = rule_objs w ! q"
    by (simp add: mutation_of_def rule_ok_def)
  have g: "\<And>a. a \<in> rule_refs w q \<Longrightarrow> graphs w' ! a = graphs w ! a"
    using m ok disj by (auto simp: mutation_of_def rule_ok_def)
  show ?thesis
    using o g
    by (cases "lhs (rule_objs w ! q)"; cases "rhs (rule_objs w ! q)")
       (auto simp: rule_value_def rule_refs_def)
qed

text \<open>
  Claim C9.  For every proof state and every rule name that resolves, two successive
  \<open>lookup_rule\<close> calls on the otherwise unmodified proof state return two rules that are
  copies of the stored rule the name resolves to, structurally equal to it and to each
  other, and independently mutable: both are new objects with new graphs of
  their own, neither is the stored rule nor the other copy, and a mutation of one
  returned rule (of the rule object or of the graphs it refers to) changes neither the
  content of the rules the proof state stores nor the content of the other copy.
\<close>

theorem lookup_rule_twice:
  assumes first: "lookup_rule rule_name goal_i local ps w = (Inr (Some r1), ps1, w1)"
    and again: "lookup_rule rule_name goal_i local ps1 w1 = (res2, ps2, w2)"
    and refs: "\<forall>r \<in> stored_rules ps w. rule_ok w r"
  shows "\<exists>r2 r0. res2 = Inr (Some r2) \<and> ps1 = ps \<and> ps2 = ps \<and> extends w w2
           \<and> resolves_to rule_name goal_i local ps w r0 \<and> r0 \<in> stored_rules ps w
           \<and> rule_value w2 r1 = rule_value w r0 \<and> rule_value w2 r2 = rule_value w r0
           \<and> r1 \<noteq> r2 \<and> length (rule_objs w) \<le> r1 \<and> length (rule_objs w) \<le> r2
           \<and> rule_ok w2 r1 \<and> rule_ok w2 r2
           \<and> rule_refs w2 r1 \<inter> rule_refs w2 r2 = {}
           \<and> (\<forall>a \<in> rule_refs w2 r1 \<union> rule_refs w2 r2. length (graphs w) \<le> a)
           \<and> rule_value w2 r1 = rule_value w2 r2
           \<and> (\<forall>w3. mutation_of w2 r1 w3 \<longrightarrow>
                  rule_value w3 r2 = rule_value w2 r2
                  \<and> (\<forall>r \<in> stored_rules ps w. rule_value w3 r = rule_value w r))
           \<and> (\<forall>w3. mutation_of w2 r2 w3 \<longrightarrow>
                  rule_value w3 r1 = rule_value w2 r1
                  \<and> (\<forall>r \<in> stored_rules ps w. rule_value w3 r = rule_value w r))"
proof -
  from lookup_rule_Some [OF first] obtain r0 where
    st: "r0 \<in> stored_rules ps w" and c1: "Rule_copy r0 w = (r1, w1)" and ps1: "ps1 = ps"
    and rs: "resolves_to rule_name goal_i local ps w r0"
    and gen: "\<And>v. state v = state w \<Longrightarrow> lookup_rule rule_name goal_i local ps v
                = (Inr (Some (fst (Rule_copy r0 v))), ps, snd (Rule_copy r0 v))"
    by blast
  from refs st have ok0: "rule_ok w r0" by blast
  note i1 = Rule_copy_independent [OF ok0 c1]
  then have e1: "extends w w1" by (simp add: independent_copy_def)
  obtain r2 w2' where c2: "Rule_copy r0 w1 = (r2, w2')" by (cases "Rule_copy r0 w1")
  from gen [of w1] extends_state [OF e1] again ps1 c2
  have res2: "res2 = Inr (Some r2)" and ps2: "ps2 = ps" and w2: "w2' = w2" by simp_all
  have ok01: "rule_ok w1 r0" using e1 ok0 by (rule extends_rule_ok)
  note i2 = Rule_copy_independent [OF ok01 c2 [unfolded w2]]
  then have e2: "extends w1 w2" by (simp add: independent_copy_def)
  have e: "extends w w2" using e1 e2 by (rule extends_trans)
  from i1 have b1: "length (rule_objs w) \<le> r1" "r1 < length (rule_objs w1)"
    and g1: "\<forall>a \<in> rule_refs w1 r1. length (graphs w) \<le> a \<and> a < length (graphs w1)"
    and v1: "rule_value w1 r1 = rule_value w r0"
    by (simp_all add: independent_copy_def)
  from i2 have b2: "length (rule_objs w1) \<le> r2" "r2 < length (rule_objs w2)"
    and g2: "\<forall>a \<in> rule_refs w2 r2. length (graphs w1) \<le> a \<and> a < length (graphs w2)"
    and v2: "rule_value w2 r2 = rule_value w1 r0"
    by (simp_all add: independent_copy_def)
  have ok11: "rule_ok w1 r1" using b1 g1 by (auto simp: rule_ok_def)
  have ok21: "rule_ok w2 r1" using e2 ok11 by (rule extends_rule_ok)
  have ok22: "rule_ok w2 r2" using b2 g2 by (auto simp: rule_ok_def)
  have rr1: "rule_refs w2 r1 = rule_refs w1 r1" using e2 b1(2) by (rule extends_rule_refs)
  have ne: "r1 \<noteq> r2" using b1 b2 by simp
  have lw: "length (rule_objs w) \<le> r2" "length (graphs w) \<le> length (graphs w1)"
    using b1 b2 extends_length [OF e1] by simp_all
  have in1: "\<And>a. a \<in> rule_refs w2 r1 \<Longrightarrow> length (graphs w) \<le> a \<and> a < length (graphs w1)"
    using rr1 g1 by blast
  have in2: "\<And>a. a \<in> rule_refs w2 r2 \<Longrightarrow> length (graphs w1) \<le> a"
    using g2 by blast
  have disj: "rule_refs w2 r1 \<inter> rule_refs w2 r2 = {}"
  proof -
    have "\<And>a. a \<in> rule_refs w2 r1 \<Longrightarrow> a \<in> rule_refs w2 r2 \<Longrightarrow> False"
    proof -
      fix a assume "a \<in> rule_refs w2 r1" and "a \<in> rule_refs w2 r2"
      with in1 [of a] in2 [of a] show False by simp
    qed
    then show ?thesis by blast
  qed
  have fresh: "\<forall>a \<in> rule_refs w2 r1 \<union> rule_refs w2 r2. length (graphs w) \<le> a"
  proof
    fix a assume "a \<in> rule_refs w2 r1 \<union> rule_refs w2 r2"
    then show "length (graphs w) \<le> a"
      using in1 [of a] in2 [of a] lw(2) by auto
  qed
  have veq: "rule_value w2 r1 = rule_value w2 r2"
    using extends_rule_value [OF e2 ok11] extends_rule_value [OF e1 ok0] v1 v2 by simp
  have stored: "\<And>w3 q r. mutation_of w2 q w3 \<Longrightarrow> q = r1 \<or> q = r2 \<Longrightarrow> r \<in> stored_rules ps w
                   \<Longrightarrow> rule_value w3 r = rule_value w r"
  proof -
    fix w3 q r
    assume m: "mutation_of w2 q w3" and q: "q = r1 \<or> q = r2" and r: "r \<in> stored_rules ps w"
    from refs r have okr: "rule_ok w r" by blast
    then have okr2: "rule_ok w2 r" using e extends_rule_ok by blast
    from okr have rl: "r < length (rule_objs w)" by (simp add: rule_ok_def)
    have rq: "r \<noteq> q" using rl q b1 lw by auto
    have rrr: "rule_refs w2 r = rule_refs w r" using e rl by (rule extends_rule_refs)
    have "rule_refs w2 r \<inter> rule_refs w2 q = {}"
    proof -
      have "\<And>a. a \<in> rule_refs w2 r \<Longrightarrow> a \<in> rule_refs w2 q \<Longrightarrow> False"
      proof -
        fix a assume ar: "a \<in> rule_refs w2 r" and aq: "a \<in> rule_refs w2 q"
        from ar rrr okr have "a < length (graphs w)" by (simp add: rule_ok_def)
        moreover from aq q fresh have "length (graphs w) \<le> a" by blast
        ultimately show False by simp
      qed
      then show ?thesis by blast
    qed
    from mutation_frame [OF m rq okr2 this] extends_rule_value [OF e okr]
    show "rule_value w3 r = rule_value w r" by simp
  qed
  have m1: "\<forall>w3. mutation_of w2 r1 w3 \<longrightarrow>
                  rule_value w3 r2 = rule_value w2 r2
                  \<and> (\<forall>r \<in> stored_rules ps w. rule_value w3 r = rule_value w r)"
    using mutation_frame [OF _ ne [symmetric] ok22] disj stored by (simp add: Int_commute)
  have m2: "\<forall>w3. mutation_of w2 r2 w3 \<longrightarrow>
                  rule_value w3 r1 = rule_value w2 r1
                  \<and> (\<forall>r \<in> stored_rules ps w. rule_value w3 r = rule_value w r)"
    using mutation_frame [OF _ ne ok21] disj stored by simp
  have val1: "rule_value w2 r1 = rule_value w r0"
    using extends_rule_value [OF e2 ok11] v1 by simp
  have val2: "rule_value w2 r2 = rule_value w r0"
    using extends_rule_value [OF e1 ok0] v2 by simp
  from res2 ps1 ps2 e rs st val1 val2 ne b1(1) lw(1) ok21 ok22 disj fresh veq m1 m2
  show ?thesis by blast
qed

theorem lookup_rule_twice_witness:
  "case lookup_rule ''ax'' 0 None ex_ps ex_world_ax of
     (res1, ps1, w1) \<Rightarrow>
       (case lookup_rule ''ax'' 0 None ps1 w1 of
          (res2, ps2, w2) \<Rightarrow>
            res1 = Inr (Some 1)
            \<and> (\<exists>r2. res2 = Inr (Some r2) \<and> r2 \<noteq> 1
                     \<and> rule_refs w2 1 \<inter> rule_refs w2 r2 = {}
                     \<and> rule_value w2 1 = (Some ex_wire, Some ex_wire)
                     \<and> rule_value w2 r2 = (Some ex_wire, Some ex_wire)))"
proof -
  obtain res1 ps1 w1 where
    first: "lookup_rule ''ax'' 0 None ex_ps ex_world_ax = (res1, ps1, w1)"
    by (cases "lookup_rule ''ax'' 0 None ex_ps ex_world_ax")
  obtain res2 ps2 w2 where
    again: "lookup_rule ''ax'' 0 None ps1 w1 = (res2, ps2, w2)"
    by (cases "lookup_rule ''ax'' 0 None ps1 w1")
  have "fst (lookup_rule ''ax'' 0 None ex_ps ex_world_ax) = Inr (Some 1)"
    by (simp add: lookup_rule_def lookup_local_def lookup_finish_def py_index_def ex_ps_def
                  ex_world_ax_def ex_state_ax_def Rule_copy_def Graph_copy_opt_def
                  Graph_copy_def Rule_new_def Let_def)
  with first have r1: "res1 = Inr (Some 1)" by simp
  have st: "stored_rules ex_ps ex_world_ax = {0}"
    by (simp add: stored_rules_def ex_ps_def ex_world_ax_def ex_state_ax_def)
  have refs: "\<forall>r \<in> stored_rules ex_ps ex_world_ax. rule_ok ex_world_ax r"
    unfolding st by (simp add: rule_ok_def rule_refs_def ex_world_ax_def)
  have rs: "\<And>r0. resolves_to ''ax'' 0 None ex_ps ex_world_ax r0 \<Longrightarrow> r0 = 0"
    by (simp add: resolves_to_def lookup_local_def py_index_def ex_ps_def ex_world_ax_def
                  ex_state_ax_def)
  have v0: "rule_value ex_world_ax 0 = (Some ex_wire, Some ex_wire)"
    by (simp add: rule_value_def ex_world_ax_def)
  from lookup_rule_twice [OF first [unfolded r1] again refs]
  obtain r2 r0 where "res2 = Inr (Some r2)" "r2 \<noteq> 1"
    "rule_refs w2 1 \<inter> rule_refs w2 r2 = {}"
    "resolves_to ''ax'' 0 None ex_ps ex_world_ax r0"
    "rule_value w2 1 = rule_value ex_world_ax r0" "rule_value w2 r2 = rule_value ex_world_ax r0"
    by metis
  with rs [of r0] v0
  have "\<exists>r2. res2 = Inr (Some r2) \<and> r2 \<noteq> 1
              \<and> rule_refs w2 1 \<inter> rule_refs w2 r2 = {}
              \<and> rule_value w2 1 = (Some ex_wire, Some ex_wire)
              \<and> rule_value w2 r2 = (Some ex_wire, Some ex_wire)"
    by auto
  with first again r1 show ?thesis by simp
qed

section \<open>Replacing a side of the topmost goal\<close>

lemma replace_lhs_push:
  assumes gs: "goals ps = g0 # gs"
    and l: "lhs (rule_objs w ! formula g0) = Some a"
    and a: "a < length (graphs w)" and n: "n < length (graphs w)"
    and f: "formula g0 < length (rule_objs w)"
    and sb: "same_boundary (graphs w ! a) (graphs w ! n)"
  shows "\<exists>g w'. replace_lhs msg n ps w = (Inr (), ps\<lparr>goals := g # goals ps\<rparr>, w')
           \<and> formula g = length (rule_objs w)
           \<and> rule_objs w' ! formula g = \<lparr>lhs = Some (length (graphs w)), rhs = Some n\<rparr>
           \<and> graphs w' ! length (graphs w) = graphs w ! a
           \<and> (\<forall>b < length (graphs w). graphs w' ! b = graphs w ! b)
           \<and> rule_objs w' ! formula g0 = (rule_objs w ! formula g0)\<lparr>lhs := Some n\<rparr>
           \<and> (\<forall>q < length (rule_objs w). q \<noteq> formula g0 \<longrightarrow> rule_objs w' ! q = rule_objs w ! q)
           \<and> length (graphs w) < length (graphs w')
           \<and> length (rule_objs w) < length (rule_objs w')
           \<and> state w' = state w"
proof -
  let ?tr = "formula g0"
  define w1 where "w1 = w\<lparr>graphs := graphs w @ [graphs w ! a]\<rparr>"
  define w2 where "w2 = w1\<lparr>rule_objs := rule_objs w1 @ [\<lparr>lhs = Some (length (graphs w)), rhs = Some n\<rparr>]\<rparr>"
  define w3 where "w3 = set_lhs ?tr (Some n) w2"
  have tr: "target_rule [] ps = Some ?tr" using gs by (simp add: target_rule_def)
  have pl: "ProofState_lhs ps w = (Inr (Some (length (graphs w))), w1)"
    using tr l by (simp add: ProofState_lhs_def Graph_copy_opt_def Graph_copy_def w1_def)
  have ri: "Rule_init msg (Some (length (graphs w))) (Some n) w1 = (Inr (length (rule_objs w)), w2)"
    using sb n
    by (simp add: Rule_init_def Rule_new_def w1_def w2_def nth_append same_boundary_def)
  have pi: "py_index (goals ps) 0 = Some g0" using gs by (simp add: py_index_def)
  obtain g w4 where gc: "Goal_copy g0 w3 = (g, w4)" by (cases "Goal_copy g0 w3")
  have r: "replace_lhs msg n ps w
             = (Inr (), ps\<lparr>goals := g\<lparr>formula := length (rule_objs w)\<rparr> # goals ps\<rparr>, w4)"
    using pl ri tr pi gc by (simp add: replace_lhs_def w3_def)
  have e: "extends w3 w4" using gc by (rule Goal_copy_extends)
  have g3: "graphs w3 = graphs w @ [graphs w ! a]"
    by (simp add: w3_def set_lhs_def w2_def w1_def)
  have r3: "rule_objs w3 = (rule_objs w @ [\<lparr>lhs = Some (length (graphs w)), rhs = Some n\<rparr>])
                              [?tr := (rule_objs w ! ?tr)\<lparr>lhs := Some n\<rparr>]"
    using f by (simp add: w3_def set_lhs_def w2_def w1_def nth_append)
  have s3: "state w3 = state w" by (simp add: w3_def set_lhs_def w2_def w1_def)
  have lg: "length (graphs w3) = Suc (length (graphs w))" using g3 by simp
  have lr: "length (rule_objs w3) = Suc (length (rule_objs w))" using r3 by simp
  have c1: "rule_objs w4 ! length (rule_objs w) = \<lparr>lhs = Some (length (graphs w)), rhs = Some n\<rparr>"
    using extends_rule_nth [OF e, of "length (rule_objs w)"] lr r3 f by (simp add: nth_append)
  have c2: "graphs w4 ! length (graphs w) = graphs w ! a"
    using extends_graph_nth [OF e, of "length (graphs w)"] lg g3 by simp
  have c3: "\<forall>b < length (graphs w). graphs w4 ! b = graphs w ! b"
    using extends_graph_nth [OF e] lg g3 by (simp add: nth_append)
  have c4: "rule_objs w4 ! ?tr = (rule_objs w ! ?tr)\<lparr>lhs := Some n\<rparr>"
    using extends_rule_nth [OF e, of ?tr] lr r3 f by simp
  have c5: "\<forall>q < length (rule_objs w). q \<noteq> ?tr \<longrightarrow> rule_objs w4 ! q = rule_objs w ! q"
    using extends_rule_nth [OF e] lr r3 by (simp add: nth_append)
  have c6: "length (graphs w) < length (graphs w4)" "length (rule_objs w) < length (rule_objs w4)"
    using extends_length [OF e] lg lr by simp_all
  have c7: "state w4 = state w" using extends_state [OF e] s3 by simp
  from r c1 c2 c3 c4 c5 c6 c7 show ?thesis by auto
qed

text \<open>
  Claim C8, as amended.  For every proof state with a non-empty goal stack whose topmost
  formula has a left side, and boundary-compatible replacement graphs, two sequential
  \<open>replace_lhs\<close> calls push two new goals: the goal stack grows by exactly one per call,
  with the new goal on top of the unchanged rest.  The formula of each newly pushed
  sub-goal pairs the left side the topmost goal had before that replacement (a copy of
  it) with the proposed graph; it is not the prior topmost formula, whose right side it
  does not keep.  The replaced goal has the proposed graph as its new left side.
\<close>

theorem replace_lhs_twice:
  assumes gs: "goals ps = g0 # gs"
    and l: "lhs (rule_objs w ! formula g0) = Some a"
    and a: "a < length (graphs w)" and f: "formula g0 < length (rule_objs w)"
    and n1: "n1 < length (graphs w)" and n2: "n2 < length (graphs w)"
    and sb1: "same_boundary (graphs w ! a) (graphs w ! n1)"
    and sb2: "same_boundary (graphs w ! a) (graphs w ! n2)"
  shows "\<exists>ps1 w1 ps2 w2.
           replace_lhs msg n1 ps w = (Inr (), ps1, w1)
           \<and> replace_lhs msg n2 ps1 w1 = (Inr (), ps2, w2)
           \<and> tl (goals ps1) = goals ps \<and> length (goals ps1) = length (goals ps) + 1
           \<and> tl (goals ps2) = goals ps1 \<and> length (goals ps2) = length (goals ps1) + 1
           \<and> rule_value w1 (formula (hd (goals ps1)))
               = (Some (graphs w ! a), Some (graphs w ! n1))
           \<and> fst (rule_value w1 (formula g0)) = Some (graphs w ! n1)
           \<and> rule_value w2 (formula (hd (goals ps2)))
               = (Some (graphs w ! a), Some (graphs w ! n2))
           \<and> rule_value w2 (formula (hd (goals ps1)))
               = (Some (graphs w ! n2), Some (graphs w ! n1))"
proof -
  from replace_lhs_push [OF gs l a n1 f sb1, of msg] obtain g1 w1 where
    r1: "replace_lhs msg n1 ps w = (Inr (), ps\<lparr>goals := g1 # goals ps\<rparr>, w1)"
    and f1: "formula g1 = length (rule_objs w)"
    and o1: "rule_objs w1 ! formula g1 = \<lparr>lhs = Some (length (graphs w)), rhs = Some n1\<rparr>"
    and c1: "graphs w1 ! length (graphs w) = graphs w ! a"
    and k1: "\<forall>b < length (graphs w). graphs w1 ! b = graphs w ! b"
    and t1: "rule_objs w1 ! formula g0 = (rule_objs w ! formula g0)\<lparr>lhs := Some n1\<rparr>"
    and lg1: "length (graphs w) < length (graphs w1)"
    and lr1: "length (rule_objs w) < length (rule_objs w1)"
    by blast
  let ?ps1 = "ps\<lparr>goals := g1 # goals ps\<rparr>"
  have gs1: "goals ?ps1 = g1 # (g0 # gs)" using gs by simp
  have l1: "lhs (rule_objs w1 ! formula g1) = Some (length (graphs w))" using o1 by simp
  have n2': "n2 < length (graphs w1)" using n2 lg1 by simp
  have fr1: "formula g1 < length (rule_objs w1)" using f1 lr1 by simp
  have sb2': "same_boundary (graphs w1 ! length (graphs w)) (graphs w1 ! n2)"
    using sb2 c1 k1 n2 by simp
  from replace_lhs_push [OF gs1 l1 lg1 n2' fr1 sb2', of msg] obtain g2 w2 where
    r2: "replace_lhs msg n2 ?ps1 w1 = (Inr (), ?ps1\<lparr>goals := g2 # goals ?ps1\<rparr>, w2)"
    and f2: "formula g2 = length (rule_objs w1)"
    and o2: "rule_objs w2 ! formula g2 = \<lparr>lhs = Some (length (graphs w1)), rhs = Some n2\<rparr>"
    and c2: "graphs w2 ! length (graphs w1) = graphs w1 ! length (graphs w)"
    and k2: "\<forall>b < length (graphs w1). graphs w2 ! b = graphs w1 ! b"
    and t2: "rule_objs w2 ! formula g1 = (rule_objs w1 ! formula g1)\<lparr>lhs := Some n2\<rparr>"
    by blast
  have v1: "rule_value w1 (formula g1) = (Some (graphs w ! a), Some (graphs w ! n1))"
    using o1 c1 k1 n1 by (simp add: rule_value_def)
  have v0: "fst (rule_value w1 (formula g0)) = Some (graphs w ! n1)"
    using t1 k1 n1 by (simp add: rule_value_def)
  have v2: "rule_value w2 (formula g2) = (Some (graphs w ! a), Some (graphs w ! n2))"
    using o2 c2 c1 k2 k1 n2 n2' by (simp add: rule_value_def)
  have v3: "rule_value w2 (formula g1) = (Some (graphs w ! n2), Some (graphs w ! n1))"
    using t2 o1 k2 k1 n1 n2 lg1 by (simp add: rule_value_def)
  from r1 r2 v1 v0 v2 v3 show ?thesis by simp
qed

theorem replace_lhs_twice_witness:
  "\<exists>ps1 w1 ps2 w2.
     replace_lhs [] 2 ex_ps ex_world_box = (Inr (), ps1, w1)
     \<and> replace_lhs [] 2 ps1 w1 = (Inr (), ps2, w2)
     \<and> length (goals ps1) = 2 \<and> length (goals ps2) = 3
     \<and> rule_value w1 (formula (hd (goals ps1))) = (Some ex_wire, Some ex_box)
     \<and> rule_value w2 (formula (hd (goals ps2))) = (Some ex_wire, Some ex_box)
     \<and> rule_value w2 (formula (hd (goals ps1))) = (Some ex_box, Some ex_box)"
proof -
  have gs: "goals ex_ps = \<lparr>formula = 0, assumptions = []\<rparr> # []" by (simp add: ex_ps_def)
  have l: "lhs (rule_objs ex_world_box ! formula \<lparr>formula = 0, assumptions = []\<rparr>) = Some 0"
    by (simp add: ex_world_box_def)
  have a: "0 < length (graphs ex_world_box)" and n: "2 < length (graphs ex_world_box)"
    and f: "formula \<lparr>formula = 0, assumptions = []\<rparr> < length (rule_objs ex_world_box)"
    by (simp_all add: ex_world_box_def)
  have sb: "same_boundary (graphs ex_world_box ! 0) (graphs ex_world_box ! 2)"
    by (simp add: same_boundary_def ex_world_box_def ex_wire_def ex_box_def)
  have g0: "graphs ex_world_box ! 0 = ex_wire" and g2: "graphs ex_world_box ! 2 = ex_box"
    by (simp_all add: ex_world_box_def)
  from replace_lhs_twice [OF gs l a f n n sb sb, of "[]"] obtain ps1 w1 ps2 w2 where
    r1: "replace_lhs [] 2 ex_ps ex_world_box = (Inr (), ps1, w1)"
    and r2: "replace_lhs [] 2 ps1 w1 = (Inr (), ps2, w2)"
    and n1: "length (goals ps1) = length (goals ex_ps) + 1"
    and n2: "length (goals ps2) = length (goals ps1) + 1"
    and v1: "rule_value w1 (formula (hd (goals ps1)))
               = (Some (graphs ex_world_box ! 0), Some (graphs ex_world_box ! 2))"
    and v2: "rule_value w2 (formula (hd (goals ps2)))
               = (Some (graphs ex_world_box ! 0), Some (graphs ex_world_box ! 2))"
    and v3: "rule_value w2 (formula (hd (goals ps1)))
               = (Some (graphs ex_world_box ! 2), Some (graphs ex_world_box ! 2))"
    by blast
  have m1: "length (goals ps1) = 2" using n1 by (simp add: ex_ps_def)
  have m2: "length (goals ps2) = 3" using n2 m1 by simp
  from r1 r2 m1 m2 v1 v2 v3 g0 g2 show ?thesis by auto
qed

text \<open>
  The claim as stated fails: after \<open>replace_lhs\<close> with the graph \<open>ex_box\<close> on the goal
  \<open>wire = wire\<close>, the pushed sub-goal's formula is \<open>wire = box\<close>, which is not the prior
  topmost formula \<open>wire = wire\<close>.
\<close>

theorem replace_lhs_formula_counterexample:
  "case replace_lhs [] 2 ex_ps ex_world_box of
     (res, ps', w') \<Rightarrow>
       res = Inr () \<and> length (goals ps') = length (goals ex_ps) + 1
       \<and> rule_value ex_world_box (formula (goals ex_ps ! 0)) = (Some ex_wire, Some ex_wire)
       \<and> rule_value w' (formula (goals ps' ! 0)) = (Some ex_wire, Some ex_box)
       \<and> rule_value w' (formula (goals ps' ! 0))
           \<noteq> rule_value ex_world_box (formula (goals ex_ps ! 0))"
proof -
  have ne: "ex_box \<noteq> ex_wire" by (simp add: ex_box_def ex_wire_def)
  show ?thesis
    using ne
    by (simp add: replace_lhs_def ProofState_lhs_def target_rule_def Graph_copy_opt_def
                  Graph_copy_def Rule_init_def Rule_new_def set_lhs_def py_index_def
                  Goal_copy_def Rule_copy_def rule_value_def ex_ps_def ex_world_box_def
                  Let_def)
       (simp add: ex_wire_def ex_box_def)
qed

section \<open>C3: the boundary vertices of the lhs in the pushout complement\<close>




section \<open>A failing rewrite leaves the target graph alone\<close>

text \<open>
  Claim C2.  For every rule and every occurrence of its lhs in a graph \<open>G\<close> (the codomain of
  the match), if \<open>dpo\<close> raises the capability error \<open>NotImplementedError\<close>, then \<open>G\<close> is left
  entirely unchanged: every graph object and every rule object on the heap before the call
  has the same content after it, and the theory state is the same; the only change is the
  one new object, the private copy of \<open>G\<close> on which all mutation of \<open>dpo\<close> happens.
\<close>

theorem dpo_failure_leaves_target:
  assumes fail: "dpo rule match w = (Inl (NotImplementedError msg), w')"
    and tgt: "codomain match < length (graphs w)"
  shows "graphs w' ! codomain match = graphs w ! codomain match
         \<and> (\<forall>a < length (graphs w). graphs w' ! a = graphs w ! a)
         \<and> rule_objs w' = rule_objs w \<and> state w' = state w
         \<and> length (graphs w') = length (graphs w) + 1"
proof -
  from dpo_heap [OF fail] obtain h where
    "graphs w' = graphs w @ [h]" "rule_objs w' = rule_objs w" "state w' = state w"
    by blast
  with tgt show ?thesis by (simp add: nth_append)
qed

theorem dpo_failure_leaves_target_witness:
  "fst (dpo 0 ex_match_fan ex_world_fan)
     = Inl (NotImplementedError ''Rewriting modulo Frobenius not yet supported.'')
   \<and> graphs (snd (dpo 0 ex_match_fan ex_world_fan)) ! codomain ex_match_fan = ex_fan
   \<and> rule_objs (snd (dpo 0 ex_match_fan ex_world_fan)) = rule_objs ex_world_fan"
proof -
  obtain res w' where d: "dpo 0 ex_match_fan ex_world_fan = (res, w')"
    by (cases "dpo 0 ex_match_fan ex_world_fan")
  have "fst (dpo 0 ex_match_fan ex_world_fan)
          = Inl (NotImplementedError ''Rewriting modulo Frobenius not yet supported.'')"
    by (simp add: dpo_eval graph_eval ex_world_fan_def ex_match_fan_def ex_fan_def
                  ex_wire_def ex_edge_def ex_vd_def)
  with d have r: "res = Inl (NotImplementedError ''Rewriting modulo Frobenius not yet supported.'')"
    by simp
  have tgt: "codomain ex_match_fan < length (graphs ex_world_fan)"
    by (simp add: ex_match_fan_def ex_world_fan_def)
  have g: "graphs ex_world_fan ! codomain ex_match_fan = ex_fan"
    by (simp add: ex_match_fan_def ex_world_fan_def)
  from dpo_failure_leaves_target [OF d [unfolded r] tgt] d r g show ?thesis by simp
qed

section \<open>The rewrite sequence\<close>

lemma rewrite_commit_committed:
  assumes tr: "target_rule target ps = Some tr" and v: "tr < length (rule_objs w)"
    and c: "codomain m_h < length (graphs w)"
  shows "\<exists>w'. rewrite_commit sd target m_h ps w = (Inr (), w') \<and> committed sd tr m_h w w'"
  using assms
  by (cases sd)
     (auto simp: rewrite_commit_def Graph_copy_def set_side_def set_lhs_def set_rhs_def
                 committed_def get_side_def nth_append)

lemma committed_after:
  assumes e: "\<forall>a < length (graphs w). graphs w1 ! a = graphs w ! a"
    and l: "length (graphs w) \<le> length (graphs w1)" "length (rule_objs w) \<le> length (rule_objs w1)"
    and c: "committed sd tr m_h w1 w'"
  shows "committed sd tr m_h w w'"
  using assms by (auto simp: committed_def)

lemma rewrite_inner_yield:
  assumes i: "rewrite_inner sd rule target m_g hs ms ps w = Some (Inr (Some (a, b)), gen', w')"
    and tr: "target_rule target ps = Some tr" and v: "tr < length (rule_objs w)"
    and c: "\<forall>m \<in> set hs. codomain m < length (graphs w)"
  shows "\<exists>hs'. hs = b # hs' \<and> a = m_g \<and> gen' = Gen_loop rule target m_g hs' ms
               \<and> committed sd tr b w w'
               \<and> rewrite_commit sd target b ps w = (Inr (), w')"
proof (cases hs)
  case Nil
  with i show ?thesis by simp
next
  case (Cons m_h hs')
  with c have "codomain m_h < length (graphs w)" by simp
  from rewrite_commit_committed [OF tr v this, of sd] obtain w1 where
    "rewrite_commit sd target m_h ps w = (Inr (), w1)" "committed sd tr m_h w w1"
    by blast
  with i Cons show ?thesis by auto
qed

lemma rewrite_outer_yield:
  assumes o: "rewrite_outer sd rule target ms ps w = (Inr (Some (m_g, m_h)), gen', w')"
    and tr: "target_rule target ps = Some tr" and v: "tr < length (rule_objs w)"
  shows "\<exists>ms' w1. ms = m_g # ms' \<and> gen' = Gen_loop rule target m_g [] ms'
               \<and> committed sd tr m_h w w'
               \<and> dpo rule m_g w = (Inr [m_h], w1)
               \<and> rewrite_commit sd target m_h ps w1 = (Inr (), w')
               \<and> graphs w' ! codomain m_h = graphs w1 ! codomain m_h"
proof (cases ms)
  case Nil
  with o show ?thesis by simp
next
  case (Cons m ms0)
  from o Cons obtain hs w1 where d: "dpo rule m w = (Inr hs, w1)"
    by (auto split: sum.splits prod.splits)
  from dpo_heap [OF d] obtain h where
    g1: "graphs w1 = graphs w @ [h]" and r1: "rule_objs w1 = rule_objs w" by blast
  from dpo_result [OF d] obtain m_h0 where hs: "hs = [m_h0]"
    and cod: "codomain m_h0 = length (graphs w)" by blast
  have v1: "tr < length (rule_objs w1)" using v r1 by simp
  have c1: "\<forall>x \<in> set hs. codomain x < length (graphs w1)" using hs cod g1 by simp
  have fr: "\<forall>a < length (graphs w). graphs w1 ! a = graphs w ! a"
    using g1 by (simp add: nth_append)
  have ln: "length (graphs w) \<le> length (graphs w1)" "length (rule_objs w) \<le> length (rule_objs w1)"
    using g1 r1 by simp_all
  from o Cons d hs
  have i: "rewrite_inner sd rule target m hs ms0 ps w1 = Some (Inr (Some (m_g, m_h)), gen', w')"
    by simp
  from rewrite_inner_yield [OF i tr v1 c1] hs obtain hs' where
    y: "hs = m_h # hs'" "m_g = m" "gen' = Gen_loop rule target m hs' ms0"
    and cm: "committed sd tr m_h w1 w'"
    and rc: "rewrite_commit sd target m_h ps w1 = (Inr (), w')"
    by blast
  from y hs have mh: "m_h0 = m_h" "hs' = []" by simp_all
  have d': "dpo rule m_g w = (Inr [m_h], w1)" using d hs mh y by simp
  have "codomain m_h < length (graphs w1)" using c1 hs mh by simp
  with cm have same: "graphs w' ! codomain m_h = graphs w1 ! codomain m_h"
    by (simp add: committed_def)
  have cw: "committed sd tr m_h w w'" using committed_after [OF fr ln cm] .
  from y mh Cons cw d' rc same show ?thesis by simp
qed

lemma rewrite_start_yield:
  assumes s: "rewrite_start sd Matches rule_expr target ps w = (Inr (Some y), gen', ps', w')"
  shows "\<exists>rule ps1 w1 tr tg.
           lookup_rule rule_expr 0 None ps w = (Inr (Some rule), ps1, w1)
           \<and> target_rule target ps1 = Some tr
           \<and> get_side sd (rule_objs w1 ! tr) = Some tg
           \<and> rewrite_outer sd rule target
                 (Matches w1 (lhs (rule_objs w1 ! rule)) (Some tg)) ps1 w1
                = (Inr (Some y), gen', w')
           \<and> ps' = ps1"
proof -
  obtain res ps1 w1 where l: "lookup_rule rule_expr 0 None ps w = (res, ps1, w1)"
    by (cases "lookup_rule rule_expr 0 None ps w")
  show ?thesis
  proof (cases res)
    case (Inl x)
    with s l show ?thesis by (simp add: rewrite_start_def)
  next
    case (Inr ro)
    show ?thesis
    proof (cases ro)
      case None
      with s l Inr show ?thesis by (simp add: rewrite_start_def)
    next
      case (Some rule)
      show ?thesis
      proof (cases "target_rule target ps1")
        case NoneT: None
        with s l Inr Some show ?thesis by (simp add: rewrite_start_def)
      next
        case SomeT: (Some tr)
        show ?thesis
        proof (cases "get_side sd (rule_objs w1 ! tr)")
          case NoneG: None
          with s l Inr Some SomeT show ?thesis by (simp add: rewrite_start_def)
        next
          case SomeG: (Some tg)
          obtain r2 g2 w2 where
            o: "rewrite_outer sd rule target
                  (Matches w1 (lhs (rule_objs w1 ! rule)) (Some tg)) ps1 w1 = (r2, g2, w2)"
            by (cases "rewrite_outer sd rule target
                  (Matches w1 (lhs (rule_objs w1 ! rule)) (Some tg)) ps1 w1")
          with s l Inr Some SomeT SomeG show ?thesis by (simp add: rewrite_start_def)
        qed
      qed
    qed
  qed
qed

text \<open>
  Claim C4, as amended.  For every proof state whose named rule resolves and whose target
  side is present, every element \<open>(m_g, m_h)\<close> of the lazy sequence of \<open>rewrite_lhs\<close> (and
  of \<open>rewrite_rhs\<close>) is committed into the target side immediately upon its completion:
  \<open>m_h\<close> is the one result of \<open>dpo(rule, m_g)\<close>, and before the pair is yielded the target
  side is rebound to a new copy of the codomain of \<open>m_h\<close>, the rewritten graph, while every
  graph object that existed before the advance keeps its content.  The occurrences are
  enumerated once, by the first advance, in the graph the target side holds at that
  moment; every later advance takes the next occurrence \<open>m_g\<close> of that enumeration and
  applies \<open>dpo\<close> to it.  The target side is not read again, and the occurrences are not
  matched against the already-rewritten graph.  (The sequence is in the state it is created
  in or in the state an earlier advance left: no result of \<open>dpo\<close> is pending.)
\<close>

theorem rewrite_next_yield:
  assumes adv: "rewrite_next sd Matches gen ps w = (Inr (Some (m_g, m_h)), gen', ps', w')"
    and tv: "\<forall>tr. target_rule (gen_target gen) ps = Some tr \<longrightarrow> tr < length (rule_objs w)"
    and pend: "gen_pending gen = []"
  shows "ps' = ps
         \<and> (\<exists>tr. target_rule (gen_target gen) ps = Some tr \<and> committed sd tr m_h w w')
         \<and> gen_pending gen' = [] \<and> gen_target gen' = gen_target gen
         \<and> (case gen of
               Gen_start rule_expr target \<Rightarrow>
                 (\<exists>rule w1 w2 tr tg ms'.
                    lookup_rule rule_expr 0 None ps w = (Inr (Some rule), ps, w1)
                    \<and> target_rule target ps = Some tr
                    \<and> get_side sd (rule_objs w ! tr) = Some tg
                    \<and> Matches w1 (lhs (rule_objs w1 ! rule)) (Some tg) = m_g # ms'
                    \<and> dpo rule m_g w1 = (Inr [m_h], w2)
                    \<and> rewrite_commit sd target m_h ps w2 = (Inr (), w')
                    \<and> graphs w' ! codomain m_h = graphs w2 ! codomain m_h
                    \<and> gen' = Gen_loop rule target m_g [] ms')
             | Gen_loop rule target m0 hs ms \<Rightarrow>
                 (\<exists>w2 ms'.
                    ms = m_g # ms'
                    \<and> dpo rule m_g w = (Inr [m_h], w2)
                    \<and> rewrite_commit sd target m_h ps w2 = (Inr (), w')
                    \<and> graphs w' ! codomain m_h = graphs w2 ! codomain m_h
                    \<and> gen' = Gen_loop rule target m_g [] ms')
             | Gen_done \<Rightarrow> False)"
proof (cases gen)
  case (Gen_start rule_expr target)
  from adv Gen_start have
    "rewrite_start sd Matches rule_expr target ps w = (Inr (Some (m_g, m_h)), gen', ps', w')"
    by (simp add: rewrite_next_def)
  from rewrite_start_yield [OF this] obtain rule ps1 w1 tr tg where
    l: "lookup_rule rule_expr 0 None ps w = (Inr (Some rule), ps1, w1)"
    and tr1: "target_rule target ps1 = Some tr"
    and tg: "get_side sd (rule_objs w1 ! tr) = Some tg"
    and o1: "rewrite_outer sd rule target
               (Matches w1 (lhs (rule_objs w1 ! rule)) (Some tg)) ps1 w1
              = (Inr (Some (m_g, m_h)), gen', w')"
    and p1: "ps' = ps1"
    by blast
  from lookup_rule_Some [OF l] obtain r0 where
    c: "Rule_copy r0 w = (rule, w1)" and ps1: "ps1 = ps" by blast
  have e: "extends w w1" using c by (rule Rule_copy_extends)
  have tr: "target_rule target ps = Some tr" using tr1 ps1 by simp
  have o: "rewrite_outer sd rule target
               (Matches w1 (lhs (rule_objs w1 ! rule)) (Some tg)) ps w1
              = (Inr (Some (m_g, m_h)), gen', w')" using o1 ps1 by simp
  have p: "ps' = ps" using p1 ps1 by simp
  from tv tr Gen_start have v: "tr < length (rule_objs w)" by (simp add: gen_target_def)
  have v1: "tr < length (rule_objs w1)" using v extends_length [OF e] by simp
  have tg0: "get_side sd (rule_objs w ! tr) = Some tg"
    using tg extends_rule_nth [OF e v] by simp
  from rewrite_outer_yield [OF o tr v1] obtain ms' w2 where
    ms: "Matches w1 (lhs (rule_objs w1 ! rule)) (Some tg) = m_g # ms'"
    and g: "gen' = Gen_loop rule target m_g [] ms'"
    and cm: "committed sd tr m_h w1 w'"
    and d: "dpo rule m_g w1 = (Inr [m_h], w2)"
    and rc: "rewrite_commit sd target m_h ps w2 = (Inr (), w')"
    and same: "graphs w' ! codomain m_h = graphs w2 ! codomain m_h"
    by blast
  have cw: "committed sd tr m_h w w'"
    using cm extends_graph_nth [OF e] extends_length [OF e]
    by (intro committed_after [of w w1]) auto
  have l': "lookup_rule rule_expr 0 None ps w = (Inr (Some rule), ps, w1)" using l ps1 by simp
  have body: "\<exists>rule w1 w2 tr tg ms'.
                    lookup_rule rule_expr 0 None ps w = (Inr (Some rule), ps, w1)
                    \<and> target_rule target ps = Some tr
                    \<and> get_side sd (rule_objs w ! tr) = Some tg
                    \<and> Matches w1 (lhs (rule_objs w1 ! rule)) (Some tg) = m_g # ms'
                    \<and> dpo rule m_g w1 = (Inr [m_h], w2)
                    \<and> rewrite_commit sd target m_h ps w2 = (Inr (), w')
                    \<and> graphs w' ! codomain m_h = graphs w2 ! codomain m_h
                    \<and> gen' = Gen_loop rule target m_g [] ms'"
    using l' tr tg0 ms d rc same g by blast
  have t1: "\<exists>tr. target_rule (gen_target gen) ps = Some tr \<and> committed sd tr m_h w w'"
    using tr cw Gen_start by (simp add: gen_target_def)
  have t2: "gen_pending gen' = [] \<and> gen_target gen' = gen_target gen"
    using g Gen_start by (simp add: gen_pending_def gen_target_def)
  from p t1 t2 body show ?thesis unfolding Gen_start by simp
next
  case (Gen_loop rule target m0 hs ms)
  from pend Gen_loop have hs: "hs = []" by (simp add: gen_pending_def)
  from adv Gen_loop hs have o: "rewrite_outer sd rule target ms ps w
                                   = (Inr (Some (m_g, m_h)), gen', w')" and p: "ps' = ps"
    by (auto simp: rewrite_next_def split: prod.splits)
  show ?thesis
  proof (cases "target_rule target ps")
    case None
    show ?thesis
    proof (cases ms)
      case Nil
      with o show ?thesis by simp
    next
      case (Cons m ms0)
      from o Cons None show ?thesis
        by (auto simp: rewrite_commit_def Graph_copy_def Let_def
                 split: sum.splits prod.splits list.splits dest!: dpo_result)
    qed
  next
    case (Some tr)
    from tv Some Gen_loop have v: "tr < length (rule_objs w)" by (simp add: gen_target_def)
    from rewrite_outer_yield [OF o Some v] obtain ms' w2 where
      ms: "ms = m_g # ms'"
      and g: "gen' = Gen_loop rule target m_g [] ms'"
      and cm: "committed sd tr m_h w w'"
      and d: "dpo rule m_g w = (Inr [m_h], w2)"
      and rc: "rewrite_commit sd target m_h ps w2 = (Inr (), w')"
      and same: "graphs w' ! codomain m_h = graphs w2 ! codomain m_h"
      by blast
    have body: "\<exists>w2 ms'.
                    ms = m_g # ms'
                    \<and> dpo rule m_g w = (Inr [m_h], w2)
                    \<and> rewrite_commit sd target m_h ps w2 = (Inr (), w')
                    \<and> graphs w' ! codomain m_h = graphs w2 ! codomain m_h
                    \<and> gen' = Gen_loop rule target m_g [] ms'"
      using ms d rc same g by blast
    have t1: "\<exists>tr. target_rule (gen_target gen) ps = Some tr \<and> committed sd tr m_h w w'"
      using Some cm Gen_loop by (simp add: gen_target_def)
    have t2: "gen_pending gen' = [] \<and> gen_target gen' = gen_target gen"
      using g Gen_loop by (simp add: gen_pending_def gen_target_def)
    from p t1 t2 body show ?thesis unfolding Gen_loop by simp
  qed
next
  case Gen_done
  with adv show ?thesis by (simp add: rewrite_next_def)
qed

lemmas rewrite_eval =
  rewrite_lhs_next_def rewrite_lhs_def rewrite_next_def rewrite_start_def rewrite_commit_def
  lookup_rule_def lookup_local_def lookup_finish_def py_index_def Rule_copy_def
  Graph_copy_opt_def Rule_new_def target_rule_def get_side_def set_side_def set_lhs_def
  set_rhs_def

lemma ex_adv1_value:
  "ex_adv1 =
     (Inr (Some (ex_dot_match 0, Match_init (Some 5) 6)),
      Gen_loop 2 [] (ex_dot_match 0) [] [ex_dot_match 1],
      ex_ps_dots,
      \<lparr>graphs = [ex_dot, ex_empty, ex_two_dots, ex_empty, ex_dot, ex_empty, ex_one_dot,
                 ex_one_dot],
       rule_objs = [\<lparr>lhs = Some 0, rhs = Some 1\<rparr>, \<lparr>lhs = Some 7, rhs = Some 3\<rparr>,
                    \<lparr>lhs = Some 4, rhs = Some 5\<rparr>],
       state = ex_state_del\<rparr>)"
  by (simp add: ex_adv1_def rewrite_eval dpo_eval graph_eval ex_ps_dots_def ex_world_dots_def
                ex_state_del_def dot_matches_def ex_dot_match_def ex_dot_def ex_two_dots_def
                ex_one_dot_def ex_empty_def)

lemma ex_adv2_value:
  "fst ex_adv2 = Inr (Some (ex_dot_match 1, Match_init (Some 5) 8))
   \<and> fst (snd ex_adv2) = Gen_loop 2 [] (ex_dot_match 1) [] []"
  by (simp add: ex_adv2_def ex_adv1_value rewrite_eval dpo_eval graph_eval ex_ps_dots_def
                ex_dot_match_def ex_dot_def ex_two_dots_def ex_one_dot_def ex_empty_def)

theorem rewrite_next_yield_witness:
  "fst ex_adv1 = Inr (Some (ex_dot_match 0, Match_init (Some 5) 6))
   \<and> committed LHS 1 (Match_init (Some 5) 6) ex_world_dots (snd (snd (snd ex_adv1)))
   \<and> get_side LHS (rule_objs ex_world_dots ! 1) = Some 2
   \<and> fst (snd ex_adv1) = Gen_loop 2 [] (ex_dot_match 0) [] [ex_dot_match 1]
   \<and> fst ex_adv2 = Inr (Some (ex_dot_match 1, Match_init (Some 5) 8))
   \<and> fst (dpo 2 (ex_dot_match 1) (snd (snd (snd ex_adv1)))) = Inr [Match_init (Some 5) 8]
   \<and> committed LHS 1 (Match_init (Some 5) 8) (snd (snd (snd ex_adv1))) (snd (snd (snd ex_adv2)))
   \<and> fst (snd ex_adv2) = Gen_loop 2 [] (ex_dot_match 1) [] []"
proof -
  obtain gen1 w1 where
    adv: "rewrite_next LHS dot_matches (Gen_start ''del'' []) ex_ps_dots ex_world_dots
            = (Inr (Some (ex_dot_match 0, Match_init (Some 5) 6)), gen1, ex_ps_dots, w1)"
    and g: "fst (snd ex_adv1) = gen1" and w: "snd (snd (snd ex_adv1)) = w1"
    and a1: "ex_adv1 = (Inr (Some (ex_dot_match 0, Match_init (Some 5) 6)), gen1, ex_ps_dots, w1)"
    using ex_adv1_value by (simp add: ex_adv1_def rewrite_lhs_next_def rewrite_lhs_def)
  have g1: "gen1 = Gen_loop 2 [] (ex_dot_match 0) [] [ex_dot_match 1]"
    using g by (simp add: ex_adv1_value)
  have r1: "length (rule_objs w1) = 3" unfolding w [symmetric] by (simp add: ex_adv1_value)
  have tv: "\<forall>tr. target_rule (gen_target (Gen_start ''del'' [])) ex_ps_dots = Some tr \<longrightarrow>
                 tr < length (rule_objs ex_world_dots)"
    by (simp add: gen_target_def target_rule_def ex_ps_dots_def ex_world_dots_def)
  have pend: "gen_pending (Gen_start ''del'' []) = []" by (simp add: gen_pending_def)
  have tr: "target_rule [] ex_ps_dots = Some 1"
    by (simp add: target_rule_def ex_ps_dots_def)
  from rewrite_next_yield [OF adv tv pend] tr
  have c1: "committed LHS 1 (Match_init (Some 5) 6) ex_world_dots w1"
    by (auto simp: gen_target_def)
  have s: "get_side LHS (rule_objs ex_world_dots ! 1) = Some 2"
    by (simp add: get_side_def ex_world_dots_def)
  have f1: "fst ex_adv1 = Inr (Some (ex_dot_match 0, Match_init (Some 5) 6))"
    unfolding a1 by simp
  obtain res2 gen2 ps2 w2 where a2: "ex_adv2 = (res2, gen2, ps2, w2)"
    by (cases ex_adv2) auto
  from ex_adv2_value [unfolded a2]
  have res2: "res2 = Inr (Some (ex_dot_match 1, Match_init (Some 5) 8))"
    and gen2: "gen2 = Gen_loop 2 [] (ex_dot_match 1) [] []" by simp_all
  have adv2: "rewrite_next LHS dot_matches (Gen_loop 2 [] (ex_dot_match 0) [] [ex_dot_match 1])
                 ex_ps_dots w1
                = (Inr (Some (ex_dot_match 1, Match_init (Some 5) 8)), gen2, ps2, w2)"
    using a2 [unfolded ex_adv2_def a1 g1] res2 by (simp add: rewrite_lhs_next_def)
  have tv2: "\<forall>tr. target_rule (gen_target (Gen_loop 2 [] (ex_dot_match 0) [] [ex_dot_match 1]))
                     ex_ps_dots = Some tr \<longrightarrow> tr < length (rule_objs w1)"
    using tr r1 by (simp add: gen_target_def)
  have pend2: "gen_pending (Gen_loop 2 [] (ex_dot_match 0) [] [ex_dot_match 1]) = []"
    by (simp add: gen_pending_def)
  from rewrite_next_yield [OF adv2 tv2 pend2] tr
  have c2: "committed LHS 1 (Match_init (Some 5) 8) w1 w2"
    and d2: "\<exists>w3. dpo 2 (ex_dot_match 1) w1 = (Inr [Match_init (Some 5) 8], w3)"
    by (auto simp: gen_target_def)
  from d2 have d2': "fst (dpo 2 (ex_dot_match 1) w1) = Inr [Match_init (Some 5) 8]" by auto
  have w2: "snd (snd (snd ex_adv2)) = w2" unfolding a2 by simp
  have g': "fst (snd ex_adv1) = Gen_loop 2 [] (ex_dot_match 0) [] [ex_dot_match 1]"
    using g g1 by simp
  from f1 c1 s g' ex_adv2_value d2' c2 show ?thesis unfolding w w2 by blast
qed

text \<open>
  The claim as stated fails.  After the first element the target side is the new graph 7,
  which holds vertex 1 only.  The second element is the occurrence at vertex 1 of graph 2,
  the graph the target side held when the sequence was created, which still holds both
  vertices; it is not the occurrence the finder reports in the target's current graph.
  The second commit makes the target side a graph that holds vertex 0 again.
\<close>

theorem rewrite_lhs_reread_counterexample:
  "lhs (rule_objs (snd (snd (snd ex_adv1))) ! 1) = Some 7
   \<and> graphs (snd (snd (snd ex_adv1))) ! 7 = ex_one_dot
   \<and> fst ex_adv2 = Inr (Some (ex_dot_match 1, Match_init (Some 5) 8))
   \<and> codomain (ex_dot_match 1) = 2
   \<and> graphs (snd (snd (snd ex_adv2))) ! 2 = ex_two_dots
   \<and> ex_dot_match 1 \<notin> set (dot_matches (snd (snd (snd ex_adv1))) (Some 4) (Some 7))
   \<and> lhs (rule_objs (snd (snd (snd ex_adv2))) ! 1) = Some 9
   \<and> vertices (graphs (snd (snd (snd ex_adv2))) ! 9) = [0]"
proof -
  have a2: "fst ex_adv2 = Inr (Some (ex_dot_match 1, Match_init (Some 5) 8))
            \<and> graphs (snd (snd (snd ex_adv2))) ! 2 = ex_two_dots
            \<and> lhs (rule_objs (snd (snd (snd ex_adv2))) ! 1) = Some 9
            \<and> vertices (graphs (snd (snd (snd ex_adv2))) ! 9) = [0]"
    by (simp add: ex_adv2_def ex_adv1_value rewrite_eval dpo_eval graph_eval ex_ps_dots_def
                  ex_dot_match_def ex_dot_def ex_two_dots_def ex_one_dot_def ex_empty_def)
  have ne: "ex_dot_match 1 \<notin> set (dot_matches (snd (snd (snd ex_adv1))) (Some 4) (Some 7))"
    by (simp add: ex_adv1_value dot_matches_def ex_dot_match_def vertices_def ex_one_dot_def)
  from a2 ne show ?thesis
    by (simp add: ex_adv1_value) (simp add: ex_dot_match_def)
qed

section \<open>C1: \<open>dpo\<close> on a supported rule\<close>




text \<open>
  The other hypotheses are needed as well.  When the occurrence sends an interior vertex of
  the lhs to a boundary port of the target, removing its image shortens the boundary of
  the rewritten graph; and when a vertex stands twice on the input boundary of the rhs,
  the second assignment to the vertex map of the result replaces the first, so the first
  port is not aligned.
\<close>

lemma dpo_interior_on_boundary_example:
  "wf_graph ex_dot \<and> wf_graph ex_empty \<and> wf_graph ex_cap \<and> same_boundary ex_dot ex_empty
   \<and> supported_boundary ex_dot \<and> supported_boundary ex_empty
   \<and> occurrence ex_dot ex_cap ex_match_cap \<and> single_wire_ends ex_dot ex_cap ex_match_cap
   \<and> \<not> boundary_respecting ex_dot ex_cap ex_match_cap
   \<and> length (inputs ex_cap) = 1
   \<and> fst (dpo 0 ex_match_cap ex_world_cap) = Inr [Match_init (Some 1) 3]
   \<and> length (inputs (graphs (snd (dpo 0 ex_match_cap ex_world_cap)) ! 3)) = 0"
proof -
  have a: "wf_graph ex_dot \<and> wf_graph ex_empty \<and> wf_graph ex_cap \<and> same_boundary ex_dot ex_empty"
    by (simp add: wf_graph_def same_boundary_def vertices_def edges_def ex_dot_def ex_empty_def
        ex_cap_def)
  have b: "supported_boundary ex_dot \<and> supported_boundary ex_empty"
    by (simp add: supported_boundary_def card_in_indices card_out_indices vertices_def
        ex_dot_def ex_empty_def)
  have c: "occurrence ex_dot ex_cap ex_match_cap \<and> single_wire_ends ex_dot ex_cap ex_match_cap
           \<and> \<not> boundary_respecting ex_dot ex_cap ex_match_cap"
    by (simp add: occurrence_def single_wire_ends_def boundary_respecting_def vertices_def
        edges_def is_boundary_def is_input_def is_output_def ex_dot_def ex_cap_def
        ex_match_cap_def)
  have d: "length (inputs ex_cap) = 1" by (simp add: ex_cap_def)
  have e: "fst (dpo 0 ex_match_cap ex_world_cap) = Inr [Match_init (Some 1) 3]
           \<and> length (inputs (graphs (snd (dpo 0 ex_match_cap ex_world_cap)) ! 3)) = 0"
    by (simp add: dpo_eval graph_eval ex_world_cap_def ex_match_cap_def ex_dot_def ex_empty_def
        ex_cap_def ex_vd_def)
  from a b c d e show ?thesis by blast
qed

lemma dpo_repeated_rhs_port_example:
  "wf_graph ex_two_in \<and> wf_graph ex_rep_in \<and> same_boundary ex_two_in ex_rep_in
   \<and> supported_boundary ex_two_in \<and> \<not> supported_boundary ex_rep_in
   \<and> occurrence ex_two_in ex_two_in ex_match_rep
   \<and> boundary_respecting ex_two_in ex_two_in ex_match_rep
   \<and> single_wire_ends ex_two_in ex_two_in ex_match_rep
   \<and> inputs ex_two_in ! 0 = 0 \<and> inputs ex_rep_in ! 0 = 0
   \<and> vertex_map ex_match_rep 0 = Some 0
   \<and> (\<exists>result. fst (dpo 0 ex_match_rep ex_world_rep) = Inr [result]
                 \<and> vertex_map result 0 = Some 1)"
proof -
  have a: "wf_graph ex_two_in \<and> wf_graph ex_rep_in \<and> same_boundary ex_two_in ex_rep_in"
    by (simp add: wf_graph_def same_boundary_def vertices_def edges_def ex_two_in_def
        ex_rep_in_def)
  have b: "supported_boundary ex_two_in \<and> \<not> supported_boundary ex_rep_in"
    by (simp add: supported_boundary_def card_in_indices card_out_indices vertices_def
        is_boundary_def is_input_def ex_two_in_def ex_rep_in_def)
  have c: "occurrence ex_two_in ex_two_in ex_match_rep
           \<and> boundary_respecting ex_two_in ex_two_in ex_match_rep
           \<and> single_wire_ends ex_two_in ex_two_in ex_match_rep"
    by (simp add: occurrence_def single_wire_ends_def boundary_respecting_def vertices_def
        edges_def is_boundary_def is_input_def is_output_def inj_on_def ex_two_in_def
        ex_match_rep_def)
  have d: "inputs ex_two_in ! 0 = 0 \<and> inputs ex_rep_in ! 0 = 0
           \<and> vertex_map ex_match_rep 0 = Some 0"
    by (simp add: ex_two_in_def ex_rep_in_def ex_match_rep_def)
  have e: "fst (dpo 0 ex_match_rep ex_world_rep)
             = Inr [\<lparr>domain = Some 1, codomain = 3, vertex_map = [0 \<mapsto> 1],
                     edge_map = Map.empty, vertex_image = {}, edge_image = {}\<rparr>]"
    by (simp add: dpo_eval graph_eval ex_world_rep_def ex_match_rep_def ex_two_in_def
        ex_rep_in_def ex_vd_def)
  have f: "\<exists>result. fst (dpo 0 ex_match_rep ex_world_rep) = Inr [result]
                 \<and> vertex_map result 0 = Some 1"
    unfolding e by simp
  from a b c d f show ?thesis by blast
qed

end
